theory Spec2Isabelle
  imports Main "HOL-Library.Word"
begin

section \<open>JavaScript strings\<close>

text \<open>
  A JavaScript string is a sequence of UTF-16 code units. The literals of the
  sources are written as lists of code units; \<open>ascii\<close> turns an ASCII literal
  into one.
\<close>

type_synonym jschar = "16 word"
type_synonym jsstring = "jschar list"

definition ascii :: "string \<Rightarrow> jsstring" where
  "ascii s = map (\<lambda>c. of_char c) s"

text \<open>
  \<open>String.prototype.trim\<close> removes the code units of WhiteSpace and
  LineTerminator (ECMAScript 12.2, 12.3) from both ends.
\<close>

definition isWhiteSpace :: "jschar \<Rightarrow> bool" where
  "isWhiteSpace c =
     (c \<in> set [0x9, 0xA, 0xB, 0xC, 0xD, 0x20, 0xA0, 0x1680, 0x2028, 0x2029,
                0x202F, 0x205F, 0x3000, 0xFEFF]
      \<or> (0x2000 \<le> c \<and> c \<le> 0x200A))"

definition trim :: "jsstring \<Rightarrow> jsstring" where
  "trim s = rev (dropWhile isWhiteSpace (rev (dropWhile isWhiteSpace s)))"

text \<open>\<open>x || ""\<close> on a value that is a string or \<open>undefined\<close>.\<close>

definition or_empty :: "jsstring option \<Rightarrow> jsstring" where
  "or_empty v = (case v of None \<Rightarrow> [] | Some x \<Rightarrow> x)"

text \<open>\<open>String.prototype.includes\<close>, used to say that a notice names a field.\<close>

fun startsWith :: "jsstring \<Rightarrow> jsstring \<Rightarrow> bool" where
  "startsWith s [] = True"
| "startsWith [] (p # ps) = False"
| "startsWith (c # cs) (p # ps) = (c = p \<and> startsWith cs ps)"

fun js_includes :: "jsstring \<Rightarrow> jsstring \<Rightarrow> bool" where
  "js_includes [] p = startsWith [] p"
| "js_includes (c # cs) p = (startsWith (c # cs) p \<or> js_includes cs p)"


section \<open>The editable table (editable-table.tsx) and its dashboard handlers\<close>

subsection \<open>Data\<close>

text \<open>
  A row of \<open>data\<close> is an object with an \<open>id\<close> and string-valued properties;
  \<open>item_get\<close> is the property read \<open>item[key]\<close>.
\<close>

record item =
  item_id :: jsstring
  item_fields :: "jsstring \<rightharpoonup> jsstring"

definition item_get :: "item \<Rightarrow> jsstring \<Rightarrow> jsstring option" where
  "item_get it k = (if k = ascii ''id'' then Some (item_id it) else item_fields it k)"

datatype input_type = Text | Textarea

record column =
  col_key :: jsstring
  col_label :: jsstring
  col_type :: input_type
  col_placeholder :: "jsstring option"

datatype variant = Default | Destructive

record toast =
  title :: jsstring
  description :: jsstring
  variant :: variant

datatype js_error = Error jsstring | FetchError

text \<open>
  The outcome of an awaited \<open>fetch\<close>: the promise rejects, or it resolves to a
  response with its \<open>ok\<close> flag and its JSON body.
\<close>

datatype 'a response = Rejected | Response bool 'a

text \<open>The three persistence requests of the dashboard (PATCH, POST, DELETE).\<close>

datatype request =
    Patch jsstring jsstring jsstring
  | Post "jsstring \<rightharpoonup> jsstring"
  | Delete jsstring

text \<open>
  The state of one mounted table: the props \<open>data\<close> (the dashboard's
  \<open>menuItems\<close> or \<open>restaurantDetails\<close>) and \<open>columns\<close>, the language flag, the
  five \<open>useState\<close> cells of \<open>EditableTable\<close>, the toasts shown so far, the
  requests sent so far, the requests whose promise is still pending, and the
  rejections that no handler caught.
\<close>

record table_state =
  data :: "item list"
  columns :: "column list"
  isEnglish :: bool
  editingCells :: "jsstring set"
  cellValues :: "jsstring \<rightharpoonup> jsstring"
  newRow :: "jsstring \<rightharpoonup> jsstring"
  isAddingRow :: bool
  loadingCells :: "jsstring set"
  toasts :: "toast list"
  sent :: "request list"
  inflight :: "request list"
  unhandled :: "js_error list"

subsection \<open>Helpers of the component\<close>

definition getCellKey :: "jsstring \<Rightarrow> jsstring \<Rightarrow> jsstring" where
  "getCellKey ident field = ident @ [0x2D] @ field"

definition toast_call :: "table_state \<Rightarrow> toast \<Rightarrow> table_state" where
  "toast_call s t = s\<lparr>toasts := toasts s @ [t]\<rparr>"

definition fetch :: "table_state \<Rightarrow> request \<Rightarrow> table_state" where
  "fetch s q = s\<lparr>sent := sent s @ [q], inflight := inflight s @ [q]\<rparr>"

text \<open>
  The effect \<open>useEffect(..., [data, columns])\<close>: for every item and every column,
  in order, \<open>initialValues[cellKey] = item[column.key] || ""\<close>, then
  \<open>setCellValues(initialValues)\<close>.
\<close>

definition initialValues :: "item list \<Rightarrow> column list \<Rightarrow> (jsstring \<rightharpoonup> jsstring)" where
  "initialValues items cols =
     fold (\<lambda>it m. fold (\<lambda>col m'.
             m'(getCellKey (item_id it) (col_key col) \<mapsto> or_empty (item_get it (col_key col))))
           cols m)
       items Map.empty"

text \<open>
  \<open>setMenuItems((prev) => f(prev))\<close> of the dashboard. Every updater of the
  dashboard builds a new array, so the table's effect runs after it. (The
  dashboard also builds the array \<open>columns\<close> anew whenever it renders, which runs the
  same effect on the same collection; only the runs after a change of the
  collection are part of this model.)
\<close>

definition setMenuItems :: "table_state \<Rightarrow> (item list \<Rightarrow> item list) \<Rightarrow> table_state" where
  "setMenuItems s f =
     (let s' = s\<lparr>data := f (data s)\<rparr>
      in s'\<lparr>cellValues := initialValues (data s') (columns s')\<rparr>)"

text \<open>\<open>startEditing\<close> also focuses the input after 50 ms, which changes no state.\<close>

definition startEditing :: "table_state \<Rightarrow> jsstring \<Rightarrow> jsstring \<Rightarrow> table_state" where
  "startEditing s ident field =
     s\<lparr>editingCells := insert (getCellKey ident field) (editingCells s)\<rparr>"

definition stopEditing :: "table_state \<Rightarrow> jsstring \<Rightarrow> jsstring \<Rightarrow> table_state" where
  "stopEditing s ident field =
     s\<lparr>editingCells := editingCells s - {getCellKey ident field}\<rparr>"

definition handleCellChange ::
  "table_state \<Rightarrow> jsstring \<Rightarrow> jsstring \<Rightarrow> jsstring \<Rightarrow> table_state" where
  "handleCellChange s ident field v =
     s\<lparr>cellValues := (cellValues s)(getCellKey ident field \<mapsto> v)\<rparr>"

subsection \<open>Committing a cell: saveCellValue and updateMenuItem\<close>

definition toast_field_empty :: "bool \<Rightarrow> toast" where
  "toast_field_empty en =
     \<lparr>title = (if en then ascii ''Error'' else [0x932F, 0x8AA4]),
      description = (if en then ascii ''Field cannot be empty''
                     else [0x6B04, 0x4F4D, 0x4E0D, 0x80FD, 0x70BA, 0x7A7A]),
      variant = Destructive\<rparr>"

definition toast_updated :: "bool \<Rightarrow> toast" where
  "toast_updated en =
     \<lparr>title = (if en then ascii ''Success'' else [0x6210, 0x529F]),
      description = (if en then ascii ''Updated successfully''
                     else [0x66F4, 0x65B0, 0x6210, 0x529F]),
      variant = Default\<rparr>"

definition toast_update_failed :: "bool \<Rightarrow> toast" where
  "toast_update_failed en =
     \<lparr>title = (if en then ascii ''Error'' else [0x932F, 0x8AA4]),
      description = (if en then ascii ''Failed to update''
                     else [0x66F4, 0x65B0, 0x5931, 0x6557]),
      variant = Destructive\<rparr>"

text \<open>
  \<open>saveCellValue\<close> up to its \<open>await\<close>: the validation, \<open>setLoadingCells\<close>, and the
  PATCH request that \<open>onUpdate(id, field, value.trim())\<close> sends.
\<close>

definition saveCellValue :: "table_state \<Rightarrow> jsstring \<Rightarrow> jsstring \<Rightarrow> table_state" where
  "saveCellValue s ident field =
     (let cellKey = getCellKey ident field;
          v = or_empty (cellValues s cellKey)
      in if trim v = [] then toast_call s (toast_field_empty (isEnglish s))
         else fetch (s\<lparr>loadingCells := insert cellKey (loadingCells s)\<rparr>)
                (Patch ident field (trim v)))"

text \<open>\<open>updateMenuItem\<close> from the point where its \<open>fetch\<close> has settled.\<close>

definition updateMenuItem ::
  "table_state \<Rightarrow> jsstring \<Rightarrow> item response \<Rightarrow> js_error + table_state" where
  "updateMenuItem s ident r =
     (case r of
        Rejected \<Rightarrow> Inl FetchError
      | Response ok updatedItem \<Rightarrow>
          if ok
          then Inr (setMenuItems s (map (\<lambda>it. if item_id it = ident then updatedItem else it)))
          else Inl (Error (ascii ''Failed to update menu item'')))"

text \<open>The rest of \<open>saveCellValue\<close>: \<open>try\<close> after the \<open>await\<close>, \<open>catch\<close>, \<open>finally\<close>.\<close>

definition saveCellValue_settled ::
  "table_state \<Rightarrow> jsstring \<Rightarrow> jsstring \<Rightarrow> item response \<Rightarrow> table_state" where
  "saveCellValue_settled s ident field r =
     (let s' = (case updateMenuItem s ident r of
                  Inr s1 \<Rightarrow> toast_call (stopEditing s1 ident field) (toast_updated (isEnglish s))
                | Inl e \<Rightarrow> toast_call s (toast_update_failed (isEnglish s)))
      in s'\<lparr>loadingCells := loadingCells s' - {getCellKey ident field}\<rparr>)"

subsection \<open>Cancelling an edit\<close>

definition cancelEdit :: "table_state \<Rightarrow> jsstring \<Rightarrow> jsstring \<Rightarrow> table_state" where
  "cancelEdit s ident field =
     (let cellKey = getCellKey ident field;
          s1 = (case find (\<lambda>it. item_id it = ident) (data s) of
                  Some originalItem \<Rightarrow>
                    s\<lparr>cellValues := (cellValues s)(cellKey \<mapsto> or_empty (item_get originalItem field))\<rparr>
                | None \<Rightarrow> s)
      in stopEditing s1 ident field)"

datatype key = Enter | Escape | OtherKey

definition handleKeyDown ::
  "table_state \<Rightarrow> key \<Rightarrow> bool \<Rightarrow> jsstring \<Rightarrow> jsstring \<Rightarrow> table_state" where
  "handleKeyDown s k shiftKey ident field =
     (if k = Enter \<and> \<not> shiftKey then saveCellValue s ident field
      else if k = Escape then cancelEdit s ident field
      else s)"

subsection \<open>Adding a row: addNewRow and addMenuItem\<close>

definition toast_fill_all :: "bool \<Rightarrow> toast" where
  "toast_fill_all en =
     \<lparr>title = (if en then ascii ''Error'' else [0x932F, 0x8AA4]),
      description = (if en then ascii ''Please fill all fields''
                     else [0x8ACB, 0x586B, 0x5BEB, 0x6240, 0x6709, 0x6B04, 0x4F4D]),
      variant = Destructive\<rparr>"

definition toast_added :: "bool \<Rightarrow> toast" where
  "toast_added en =
     \<lparr>title = (if en then ascii ''Success'' else [0x6210, 0x529F]),
      description = (if en then ascii ''Added successfully''
                     else [0x65B0, 0x589E, 0x6210, 0x529F]),
      variant = Default\<rparr>"

definition toast_add_failed :: "bool \<Rightarrow> toast" where
  "toast_add_failed en =
     \<lparr>title = (if en then ascii ''Error'' else [0x932F, 0x8AA4]),
      description = (if en then ascii ''Failed to add''
                     else [0x65B0, 0x589E, 0x5931, 0x6557]),
      variant = Destructive\<rparr>"

definition handleNewRowChange :: "table_state \<Rightarrow> jsstring \<Rightarrow> jsstring \<Rightarrow> table_state" where
  "handleNewRowChange s field v = s\<lparr>newRow := (newRow s)(field \<mapsto> v)\<rparr>"

text \<open>\<open>columns.filter((col) => !newRow[col.key]?.trim())\<close>\<close>

definition missingFields :: "table_state \<Rightarrow> column list" where
  "missingFields s =
     filter (\<lambda>col. case newRow s (col_key col) of None \<Rightarrow> True | Some v \<Rightarrow> trim v = [])
       (columns s)"

text \<open>\<open>addNewRow\<close> up to its \<open>await\<close>: the check and the POST of \<open>onAdd(newRow)\<close>.\<close>

definition addNewRow :: "table_state \<Rightarrow> table_state" where
  "addNewRow s =
     (if length (missingFields s) > 0 then toast_call s (toast_fill_all (isEnglish s))
      else fetch s (Post (newRow s)))"

definition addMenuItem :: "table_state \<Rightarrow> item response \<Rightarrow> js_error + table_state" where
  "addMenuItem s r =
     (case r of
        Rejected \<Rightarrow> Inl FetchError
      | Response ok newItem \<Rightarrow>
          if ok then Inr (setMenuItems s (\<lambda>prev. newItem # prev))
          else Inl (Error (ascii ''Failed to add menu item'')))"

definition addNewRow_settled :: "table_state \<Rightarrow> item response \<Rightarrow> table_state" where
  "addNewRow_settled s r =
     (case addMenuItem s r of
        Inr s1 \<Rightarrow> toast_call (s1\<lparr>newRow := Map.empty, isAddingRow := False\<rparr>)
                   (toast_added (isEnglish s))
      | Inl e \<Rightarrow> toast_call s (toast_add_failed (isEnglish s)))"

definition cancelNewRow :: "table_state \<Rightarrow> table_state" where
  "cancelNewRow s = s\<lparr>newRow := Map.empty, isAddingRow := False\<rparr>"

subsection \<open>Deleting a row: the delete button and deleteMenuItem\<close>

definition deleteMenuItem ::
  "table_state \<Rightarrow> jsstring \<Rightarrow> 'a response \<Rightarrow> js_error + table_state" where
  "deleteMenuItem s ident r =
     (case r of
        Rejected \<Rightarrow> Inl FetchError
      | Response ok body \<Rightarrow>
          if ok then Inr (setMenuItems s (filter (\<lambda>it. item_id it \<noteq> ident)))
          else Inl (Error (ascii ''Failed to delete menu item'')))"

text \<open>
  The button's handler is \<open>() => onDelete(item.id)\<close>: it sends the request and
  drops the promise; a rejection of \<open>deleteMenuItem\<close> reaches no \<open>catch\<close>.
\<close>

definition onDelete_click :: "table_state \<Rightarrow> jsstring \<Rightarrow> table_state" where
  "onDelete_click s ident = fetch s (Delete ident)"

definition onDelete_settled :: "table_state \<Rightarrow> jsstring \<Rightarrow> 'a response \<Rightarrow> table_state" where
  "onDelete_settled s ident r =
     (case deleteMenuItem s ident r of
        Inr s1 \<Rightarrow> s1
      | Inl e \<Rightarrow> s\<lparr>unhandled := unhandled s @ [e]\<rparr>)"

subsection \<open>What renderCell and the table body offer to the user\<close>

text \<open>
  A cell is rendered for every item of \<open>data\<close> and every column. When its key is
  in \<open>editingCells\<close> it shows the input, the save button and the cancel button,
  all three with \<open>disabled = isLoading\<close>; otherwise it shows the clickable value.
  A disabled control delivers no event. \<open>Settled q r\<close> is the moment at which the
  pending request \<open>q\<close> settles with outcome \<open>r\<close>.
\<close>

datatype event =
    Click_cell jsstring jsstring
  | Change_cell jsstring jsstring jsstring
  | KeyDown_cell key bool jsstring jsstring
  | Click_save jsstring jsstring
  | Click_cancel jsstring jsstring
  | Click_add
  | Change_newRow jsstring jsstring
  | Click_addNewRow
  | Click_cancelNewRow
  | Click_delete jsstring
  | Settled request "item response"

definition rendered :: "table_state \<Rightarrow> jsstring \<Rightarrow> jsstring \<Rightarrow> bool" where
  "rendered s ident field =
     (ident \<in> set (map item_id (data s)) \<and> field \<in> set (map col_key (columns s)))"

definition editor_enabled :: "table_state \<Rightarrow> jsstring \<Rightarrow> jsstring \<Rightarrow> bool" where
  "editor_enabled s ident field =
     (rendered s ident field
      \<and> getCellKey ident field \<in> editingCells s
      \<and> getCellKey ident field \<notin> loadingCells s)"

fun enabled :: "table_state \<Rightarrow> event \<Rightarrow> bool" where
  "enabled s (Click_cell ident field) =
     (rendered s ident field \<and> getCellKey ident field \<notin> editingCells s)"
| "enabled s (Change_cell ident field v) = editor_enabled s ident field"
| "enabled s (KeyDown_cell k shiftKey ident field) = editor_enabled s ident field"
| "enabled s (Click_save ident field) = editor_enabled s ident field"
| "enabled s (Click_cancel ident field) = editor_enabled s ident field"
| "enabled s Click_add = (\<not> isAddingRow s)"
| "enabled s (Change_newRow field v) = (isAddingRow s \<and> field \<in> set (map col_key (columns s)))"
| "enabled s Click_addNewRow = isAddingRow s"
| "enabled s Click_cancelNewRow = isAddingRow s"
| "enabled s (Click_delete ident) = (ident \<in> set (map item_id (data s)))"
| "enabled s (Settled q r) = (q \<in> set (inflight s))"

fun handle :: "table_state \<Rightarrow> event \<Rightarrow> table_state" where
  "handle s (Click_cell ident field) = startEditing s ident field"
| "handle s (Change_cell ident field v) = handleCellChange s ident field v"
| "handle s (KeyDown_cell k shiftKey ident field) = handleKeyDown s k shiftKey ident field"
| "handle s (Click_save ident field) = saveCellValue s ident field"
| "handle s (Click_cancel ident field) = cancelEdit s ident field"
| "handle s Click_add = s\<lparr>isAddingRow := True\<rparr>"
| "handle s (Change_newRow field v) = handleNewRowChange s field v"
| "handle s Click_addNewRow = addNewRow s"
| "handle s Click_cancelNewRow = cancelNewRow s"
| "handle s (Click_delete ident) = onDelete_click s ident"
| "handle s (Settled q r) =
     (let s0 = s\<lparr>inflight := remove1 q (inflight s)\<rparr>
      in case q of
           Patch ident field v \<Rightarrow> saveCellValue_settled s0 ident field r
         | Post draft \<Rightarrow> addNewRow_settled s0 r
         | Delete ident \<Rightarrow> onDelete_settled s0 ident r)"

definition step :: "table_state \<Rightarrow> event \<Rightarrow> table_state" where
  "step s e = (if enabled s e then handle s e else s)"

fun run :: "table_state \<Rightarrow> event list \<Rightarrow> table_state" where
  "run s [] = s"
| "run s (e # es) = run (step s e) es"

text \<open>The table as it is mounted: nothing edited, nothing pending.\<close>

definition mount :: "item list \<Rightarrow> column list \<Rightarrow> bool \<Rightarrow> table_state" where
  "mount items cols en =
     \<lparr>data = items, columns = cols, isEnglish = en, editingCells = {},
      cellValues = initialValues items cols, newRow = Map.empty, isAddingRow = False,
      loadingCells = {}, toasts = [], sent = [], inflight = [], unhandled = []\<rparr>"

text \<open>The update calls of one cell that are pending, and the cell keys of all of them.\<close>

fun is_update_of :: "jsstring \<Rightarrow> jsstring \<Rightarrow> request \<Rightarrow> bool" where
  "is_update_of ident field (Patch i f v) = (i = ident \<and> f = field)"
| "is_update_of ident field (Post d) = False"
| "is_update_of ident field (Delete i) = False"

definition updates_inflight :: "table_state \<Rightarrow> jsstring \<Rightarrow> jsstring \<Rightarrow> request list" where
  "updates_inflight s ident field = filter (is_update_of ident field) (inflight s)"

fun patchKeys :: "request list \<Rightarrow> jsstring list" where
  "patchKeys [] = []"
| "patchKeys (Patch i f v # qs) = getCellKey i f # patchKeys qs"
| "patchKeys (Post d # qs) = patchKeys qs"
| "patchKeys (Delete i # qs) = patchKeys qs"

text \<open>The value a cell shows from its record: \<open>data.find(...)[field] || ""\<close>.\<close>

definition authoritative :: "table_state \<Rightarrow> jsstring \<Rightarrow> jsstring \<Rightarrow> jsstring option" where
  "authoritative s ident field =
     map_option (\<lambda>it. or_empty (item_get it field)) (find (\<lambda>it. item_id it = ident) (data s))"


section \<open>The stream renderer\<close>

text \<open>
  In UTF-16 a character beyond the basic plane is a high surrogate followed by a
  low surrogate.
\<close>

definition isHighSurrogate :: "jschar \<Rightarrow> bool" where
  "isHighSurrogate c = (0xD800 \<le> c \<and> c \<le> 0xDBFF)"

definition isLowSurrogate :: "jschar \<Rightarrow> bool" where
  "isLowSurrogate c = (0xDC00 \<le> c \<and> c \<le> 0xDFFF)"

text \<open>
  Modelled from the spec: the unit of the reveal, which \<open>lib/stream-text\<close> (not
  among the sources) would fix. The spec counts in display characters and asks that
  a character encoded in several units is one unit and is never split; here a
  surrogate pair is one display character and every other code unit is one.
\<close>

fun displayChars :: "jsstring \<Rightarrow> jsstring list" where
  "displayChars [] = []"
| "displayChars [c] = [[c]]"
| "displayChars (h # l # cs) =
     (if isHighSurrogate h \<and> isLowSurrogate l then [h, l] # displayChars cs
      else [h] # displayChars (l # cs))"

text \<open>
  Modelled from the spec: \<open>streamTextByChar\<close> of \<open>lib/stream-text\<close>, which
  \<open>chat-form.tsx\<close> imports and which is not among the sources. The spec's contract
  \<open>reveal(text, perCharacterDelay)\<close> is a finite sequence of prefixes of \<open>text\<close>, each
  one display character longer than the one before, the last prefix being \<open>text\<close>,
  and no element at all for the empty text. The delay only paces the sequence.
\<close>

definition streamTextByChar :: "jsstring \<Rightarrow> nat \<Rightarrow> jsstring list" where
  "streamTextByChar text delay =
     map (\<lambda>n. concat (take n (displayChars text))) [1..<Suc (length (displayChars text))]"


section \<open>The chat form (chat-form.tsx)\<close>

datatype role = User | Assistant

record message =
  role :: role
  content :: jsstring
  isStreaming :: "bool option"
  isLoadingDots :: "bool option"

record chatRequest =
  Language :: jsstring
  Query :: jsstring
  Session_ID :: jsstring

text \<open>
  The state of the form, the chat requests sent so far and the invocations of the
  stream renderer so far (text and delay).
\<close>

record chat_state =
  messages :: "message list"
  input :: jsstring
  isLoading :: bool
  sessionId :: jsstring
  chat_sent :: "chatRequest list"
  streamed :: "(jsstring \<times> nat) list"

text \<open>
  \<open>sendMessage\<close> up to \<open>await fetch\<close>. The result carries \<open>assistantMessageIndex\<close>,
  which the second updater sets to the length of the list it extends; \<open>None\<close> is
  the early return on blank input.
\<close>

definition sendMessage :: "chat_state \<Rightarrow> jsstring \<Rightarrow> jsstring \<Rightarrow> chat_state \<times> nat option" where
  "sendMessage s text currentLanguage =
     (if trim text = [] then (s, None)
      else
        let userMessage = \<lparr>role = User, content = text, isStreaming = None, isLoadingDots = None\<rparr>;
            s1 = s\<lparr>messages := messages s @ [userMessage], input := [], isLoading := True\<rparr>;
            loadingDotsMessage =
              \<lparr>role = Assistant, content = [], isStreaming = None, isLoadingDots = Some True\<rparr>;
            assistantMessageIndex = length (messages s1);
            s2 = s1\<lparr>messages := messages s1 @ [loadingDotsMessage]\<rparr>;
            payload = \<lparr>Language = (if currentLanguage = ascii ''en'' then ascii ''en'' else ascii ''zh''),
                       Query = text, Session_ID = sessionId s\<rparr>
        in (s2\<lparr>chat_sent := chat_sent s2 @ [payload]\<rparr>, Some assistantMessageIndex))"

text \<open>\<open>if (newMessages[i]) newMessages[i] = f(newMessages[i])\<close> inside \<open>setMessages\<close>.\<close>

definition set_message :: "chat_state \<Rightarrow> nat \<Rightarrow> (message \<Rightarrow> message) \<Rightarrow> chat_state" where
  "set_message s i f =
     (if i < length (messages s) then s\<lparr>messages := (messages s)[i := f (messages s ! i)]\<rparr>
      else s)"

definition errorText :: "jsstring \<Rightarrow> jsstring" where
  "errorText currentLanguage =
     (if currentLanguage = ascii ''en'' then ascii ''Sorry, an error occurred. Please try again.''
      else [0x62B1, 0x6B49, 0xFF0C, 0x767C, 0x751F, 0x932F, 0x8AA4, 0xFF0C, 0x8ACB, 0x518D,
            0x8A66, 0x4E00, 0x6B21, 0x3002])"

text \<open>The \<open>catch\<close> branch of \<open>sendMessage\<close>.\<close>

definition sendMessage_catch :: "chat_state \<Rightarrow> nat \<Rightarrow> jsstring \<Rightarrow> chat_state" where
  "sendMessage_catch s i currentLanguage =
     (if i < length (messages s)
      then s\<lparr>messages := (messages s)[i :=
               \<lparr>role = Assistant, content = errorText currentLanguage,
                isStreaming = Some False, isLoadingDots = Some False\<rparr>]\<rparr>
      else s\<lparr>messages := messages s @
               [\<lparr>role = Assistant, content = errorText currentLanguage,
                 isStreaming = None, isLoadingDots = None\<rparr>]\<rparr>)"

text \<open>The \<open>try\<close> block after a response with \<open>ok\<close>: the reveal of \<open>data.response\<close>.\<close>

definition sendMessage_reveal :: "chat_state \<Rightarrow> nat \<Rightarrow> jsstring \<Rightarrow> chat_state" where
  "sendMessage_reveal s i response_text =
     (let s1 = set_message s i
                 (\<lambda>m. m\<lparr>content := [], isLoadingDots := Some False, isStreaming := Some True\<rparr>);
          s2 = s1\<lparr>streamed := streamed s1 @ [(response_text, 15)]\<rparr>;
          s3 = fold (\<lambda>partialText st. set_message st i
                       (\<lambda>m. m\<lparr>content := partialText, isStreaming := Some True,
                              isLoadingDots := Some False\<rparr>))
                 (streamTextByChar response_text 15) s2
      in set_message s3 i (\<lambda>m. m\<lparr>isStreaming := Some False\<rparr>))"

text \<open>\<open>sendMessage\<close> from the point where its \<open>fetch\<close> has settled, with \<open>finally\<close>.\<close>

definition sendMessage_settled ::
  "chat_state \<Rightarrow> nat \<Rightarrow> jsstring \<Rightarrow> jsstring response \<Rightarrow> chat_state" where
  "sendMessage_settled s i currentLanguage r =
     (let s' = (case r of
                  Rejected \<Rightarrow> sendMessage_catch s i currentLanguage
                | Response ok response_text \<Rightarrow>
                    if \<not> ok then sendMessage_catch s i currentLanguage
                    else sendMessage_reveal s i response_text)
      in s'\<lparr>isLoading := False\<rparr>)"

text \<open>A chat request has failed when \<open>fetch\<close> rejects or the response is not \<open>ok\<close>.\<close>

fun failed :: "'a response \<Rightarrow> bool" where
  "failed Rejected = True"
| "failed (Response ok body) = (\<not> ok)"


section \<open>The column schemas of the dashboard and sample data\<close>

definition menuColumns :: "bool \<Rightarrow> column list" where
  "menuColumns en =
     [\<lparr>col_key = ascii ''name'',
       col_label = (if en then ascii ''Item Name'' else [0x9805, 0x76EE, 0x540D, 0x7A31]),
       col_type = Text,
       col_placeholder = Some (if en then ascii ''Limited Item - Coffee Milk Liquor''
                               else [0x9650, 0x5B9A, 0x5546, 0x54C1, 0x20, 0x2D, 0x20,
                                     0x5496, 0x5561, 0x725B, 0x5976, 0x9152])\<rparr>,
      \<lparr>col_key = ascii ''price'',
       col_label = (if en then ascii ''Price'' else [0x50F9, 0x683C]),
       col_type = Text,
       col_placeholder = Some (ascii ''NT.100'')\<rparr>,
      \<lparr>col_key = ascii ''description'',
       col_label = (if en then ascii ''Description'' else [0x63CF, 0x8FF0]),
       col_type = Textarea,
       col_placeholder = Some (if en then ascii ''Coffee-flavored milk liquor''
                               else [0x5496, 0x5561, 0x98A8, 0x5473, 0x725B, 0x5976, 0x9152])\<rparr>]"

definition restaurantColumns :: "bool \<Rightarrow> column list" where
  "restaurantColumns en =
     [\<lparr>col_key = ascii ''details'',
       col_label = (if en then ascii ''Details'' else [0x8A73, 0x60C5]),
       col_type = Text,
       col_placeholder = Some (if en then ascii ''Opening Hours''
                               else [0x71DF, 0x696D, 0x6642, 0x9593])\<rparr>,
      \<lparr>col_key = ascii ''description'',
       col_label = (if en then ascii ''Description'' else [0x63CF, 0x8FF0]),
       col_type = Textarea,
       col_placeholder = Some (ascii ''10:30 - 14:00 , 17:00-20:00'')\<rparr>]"

text \<open>A notice names a column when its title or description contains the key or the label.\<close>

definition names_column :: "toast \<Rightarrow> column \<Rightarrow> bool" where
  "names_column t col =
     (js_includes (title t) (col_key col) \<or> js_includes (title t) (col_label col)
      \<or> js_includes (description t) (col_key col) \<or> js_includes (description t) (col_label col))"

definition ramen :: item where
  "ramen = \<lparr>item_id = ascii ''7'',
            item_fields = [ascii ''name'' \<mapsto> ascii ''Ramen'', ascii ''price'' \<mapsto> ascii ''NT.100'',
                           ascii ''description'' \<mapsto> ascii ''Pork broth'']\<rparr>"

definition gyoza :: item where
  "gyoza = \<lparr>item_id = ascii ''8'',
            item_fields = [ascii ''name'' \<mapsto> ascii ''Gyoza'', ascii ''price'' \<mapsto> ascii ''NT.60'',
                           ascii ''description'' \<mapsto> ascii ''Six pieces'']\<rparr>"

text \<open>The record \<open>ramen\<close> as the store returns it after its price became \<open>NT.120\<close>.\<close>

definition ramen_updated :: item where
  "ramen_updated = ramen\<lparr>item_fields := (item_fields ramen)(ascii ''price'' \<mapsto> ascii ''NT.120'')\<rparr>"

definition menu_table :: table_state where
  "menu_table = mount [ramen, gyoza] (menuColumns True) True"

text \<open>The price cell of \<open>ramen\<close> while the user has typed \<open>" NT.120 "\<close> into it.\<close>

definition price_edit :: table_state where
  "price_edit =
     handleCellChange (startEditing menu_table (ascii ''7'') (ascii ''price''))
       (ascii ''7'') (ascii ''price'') (ascii '' NT.120 '')"

text \<open>The name cell of \<open>ramen\<close> holding a space, an ideographic space and a tab.\<close>

definition blank_edit :: table_state where
  "blank_edit =
     handleCellChange (startEditing menu_table (ascii ''7'') (ascii ''name''))
       (ascii ''7'') (ascii ''name'') [0x20, 0x3000, 0x9]"

text \<open>
  As \<open>price_edit\<close>, with the name cell of \<open>gyoza\<close> open as well and \<open>Dumpling\<close>
  typed into it.
\<close>

definition two_edits :: table_state where
  "two_edits =
     handleCellChange (startEditing price_edit (ascii ''8'') (ascii ''name''))
       (ascii ''8'') (ascii ''name'') (ascii ''Dumpling'')"

text \<open>A restaurant-details table with a draft row that lacks its description.\<close>

definition draft_missing_description :: table_state where
  "draft_missing_description =
     (mount [] (restaurantColumns True) True)
       \<lparr>newRow := [ascii ''details'' \<mapsto> ascii ''Opening Hours''], isAddingRow := True\<rparr>"

definition draft_complete :: table_state where
  "draft_complete =
     handleNewRowChange draft_missing_description (ascii ''description'') (ascii ''11:30 - 21:30'')"

definition new_detail :: item where
  "new_detail = \<lparr>item_id = ascii ''41'',
                 item_fields = [ascii ''details'' \<mapsto> ascii ''Opening Hours'',
                                ascii ''description'' \<mapsto> ascii ''11:30 - 21:30'']\<rparr>"

definition empty_chat :: chat_state where
  "empty_chat = \<lparr>messages = [], input = ascii ''Hours?'', isLoading = False,
                  sessionId = ascii ''s1'', chat_sent = [], streamed = []\<rparr>"


section \<open>The saving marks and the pending updates\<close>

text \<open>
  The invariant of a mounted table: the pending update calls have pairwise
  different cell keys, and these keys are exactly the cells marked as saving.
\<close>

definition saving_inv :: "table_state \<Rightarrow> bool" where
  "saving_inv s =
     (distinct (patchKeys (inflight s)) \<and> set (patchKeys (inflight s)) = loadingCells s)"


section \<open>Facts about strings\<close>

lemma dropWhile_rev_nonempty:
  assumes "dropWhile P xs \<noteq> []"
  shows "dropWhile P (rev (dropWhile P xs)) \<noteq> []"
proof -
  from assms obtain y ys where eq: "dropWhile P xs = y # ys"
    by (cases "dropWhile P xs") auto
  then have "\<not> P y" using hd_dropWhile [of P xs] by auto
  then show ?thesis
    using eq by (auto simp: dropWhile_append)
qed

text \<open>A string trims to the empty string exactly when it is empty or all white space.\<close>

lemma trim_empty_iff: "trim v = [] \<longleftrightarrow> (\<forall>c \<in> set v. isWhiteSpace c)"
proof
  assume "trim v = []"
  then have "dropWhile isWhiteSpace (rev (dropWhile isWhiteSpace v)) = []"
    by (simp add: trim_def)
  then have "dropWhile isWhiteSpace v = []"
    using dropWhile_rev_nonempty [of isWhiteSpace v] by blast
  then show "\<forall>c \<in> set v. isWhiteSpace c"
    using dropWhile_eq_Nil_conv [of isWhiteSpace v] by blast
next
  assume "\<forall>c \<in> set v. isWhiteSpace c"
  then show "trim v = []"
    by (auto simp: trim_def dest: set_dropWhileD)
qed


section \<open>Facts about the handlers\<close>

lemma find_map_replace:
  "ident \<in> set (map item_id xs) \<Longrightarrow> item_id u = ident \<Longrightarrow>
   find (\<lambda>it. item_id it = ident) (map (\<lambda>it. if item_id it = ident then u else it) xs) = Some u"
  by (induction xs) auto

lemma saveCellValue_valid:
  "trim (or_empty (cellValues s (getCellKey ident field))) \<noteq> [] \<Longrightarrow>
   saveCellValue s ident field =
     fetch (s\<lparr>loadingCells := insert (getCellKey ident field) (loadingCells s)\<rparr>)
       (Patch ident field (trim (or_empty (cellValues s (getCellKey ident field)))))"
  by (simp add: saveCellValue_def Let_def)

lemma saveCellValue_invalid:
  "trim (or_empty (cellValues s (getCellKey ident field))) = [] \<Longrightarrow>
   saveCellValue s ident field = toast_call s (toast_field_empty (isEnglish s))"
  by (simp add: saveCellValue_def Let_def)

lemma saveCellValue_settled_ok:
  "saveCellValue_settled s ident field (Response True u) =
     (toast_call
        (stopEditing (setMenuItems s (map (\<lambda>it. if item_id it = ident then u else it))) ident field)
        (toast_updated (isEnglish s)))
     \<lparr>loadingCells := loadingCells s - {getCellKey ident field}\<rparr>"
  by (simp add: saveCellValue_settled_def updateMenuItem_def toast_call_def stopEditing_def
      setMenuItems_def Let_def)

lemma saveCellValue_settled_failed:
  "failed r \<Longrightarrow>
   saveCellValue_settled s ident field r =
     (toast_call s (toast_update_failed (isEnglish s)))
     \<lparr>loadingCells := loadingCells s - {getCellKey ident field}\<rparr>"
  by (cases r) (simp_all add: saveCellValue_settled_def updateMenuItem_def toast_call_def Let_def)

lemma saveCellValue_settled_frame:
  "inflight (saveCellValue_settled s ident field r) = inflight s"
  "loadingCells (saveCellValue_settled s ident field r) = loadingCells s - {getCellKey ident field}"
  by (cases r;
      simp add: saveCellValue_settled_def updateMenuItem_def toast_call_def stopEditing_def
        setMenuItems_def Let_def)+

lemma cancelEdit_frame:
  "inflight (cancelEdit s ident field) = inflight s"
  "loadingCells (cancelEdit s ident field) = loadingCells s"
  by (simp_all add: cancelEdit_def stopEditing_def Let_def split: option.splits)

lemma missingFields_nonempty_iff:
  "missingFields s \<noteq> [] \<longleftrightarrow>
   (\<exists>col \<in> set (columns s). trim (or_empty (newRow s (col_key col))) = [])"
  by (auto simp: missingFields_def filter_empty_conv or_empty_def trim_def split: option.splits)

lemma addNewRow_settled_frame:
  "inflight (addNewRow_settled s r) = inflight s"
  "loadingCells (addNewRow_settled s r) = loadingCells s"
  by (cases r;
      simp add: addNewRow_settled_def addMenuItem_def toast_call_def setMenuItems_def Let_def)+

lemma onDelete_settled_frame:
  "inflight (onDelete_settled s ident r) = inflight s"
  "loadingCells (onDelete_settled s ident r) = loadingCells s"
  by (cases r; simp add: onDelete_settled_def deleteMenuItem_def setMenuItems_def Let_def)+

text \<open>A failed delete changes nothing but the list of uncaught rejections.\<close>

lemma onDelete_settled_failed:
  "failed r \<Longrightarrow>
   onDelete_settled s ident r =
     s\<lparr>unhandled := unhandled s @
        [case r of Rejected \<Rightarrow> FetchError
         | Response ok b \<Rightarrow> Error (ascii ''Failed to delete menu item'')]\<rparr>"
  by (cases r) (simp_all add: onDelete_settled_def deleteMenuItem_def)


section \<open>Facts about the effect on the pending values\<close>

lemma fold_cols_lookup:
  assumes "\<forall>col \<in> set cols. getCellKey (item_id it) (col_key col) = k \<longrightarrow>
             or_empty (item_get it (col_key col)) = v"
    and "(\<exists>col \<in> set cols. getCellKey (item_id it) (col_key col) = k) \<or> m k = Some v"
  shows "fold (\<lambda>col m'. m'(getCellKey (item_id it) (col_key col) \<mapsto>
                          or_empty (item_get it (col_key col)))) cols m k = Some v"
  using assms
proof (induction cols arbitrary: m)
  case Nil
  then show ?case by simp
next
  case (Cons c cols)
  let ?m1 = "m(getCellKey (item_id it) (col_key c) \<mapsto> or_empty (item_get it (col_key c)))"
  have all: "\<forall>col \<in> set cols. getCellKey (item_id it) (col_key col) = k \<longrightarrow>
             or_empty (item_get it (col_key col)) = v"
    using Cons.prems(1) by simp
  have hit: "(\<exists>col \<in> set cols. getCellKey (item_id it) (col_key col) = k) \<or> ?m1 k = Some v"
  proof (cases "getCellKey (item_id it) (col_key c) = k")
    case True
    then have "or_empty (item_get it (col_key c)) = v" using Cons.prems(1) by simp
    with True show ?thesis by simp
  next
    case False
    with Cons.prems(2) show ?thesis by auto
  qed
  show ?case
    using Cons.IH [of ?m1] all hit by simp
qed

lemma fold_cols_other:
  "\<forall>col \<in> set cols. getCellKey (item_id it) (col_key col) \<noteq> k \<Longrightarrow>
   fold (\<lambda>col m'. m'(getCellKey (item_id it) (col_key col) \<mapsto>
                    or_empty (item_get it (col_key col)))) cols m k = m k"
  by (induction cols arbitrary: m) auto

lemma fold_items_lookup:
  assumes "\<forall>it \<in> set items. \<forall>col \<in> set cols. getCellKey (item_id it) (col_key col) = k \<longrightarrow>
             or_empty (item_get it (col_key col)) = v"
    and "(\<exists>it \<in> set items. \<exists>col \<in> set cols. getCellKey (item_id it) (col_key col) = k)
         \<or> m k = Some v"
  shows "fold (\<lambda>it m. fold (\<lambda>col m'. m'(getCellKey (item_id it) (col_key col) \<mapsto>
                          or_empty (item_get it (col_key col)))) cols m) items m k = Some v"
  using assms
proof (induction items arbitrary: m)
  case Nil
  then show ?case by simp
next
  case (Cons x items)
  let ?m1 = "fold (\<lambda>col m'. m'(getCellKey (item_id x) (col_key col) \<mapsto>
                          or_empty (item_get x (col_key col)))) cols m"
  have all: "\<forall>it \<in> set items. \<forall>col \<in> set cols. getCellKey (item_id it) (col_key col) = k \<longrightarrow>
             or_empty (item_get it (col_key col)) = v"
    using Cons.prems(1) by simp
  have allx: "\<forall>col \<in> set cols. getCellKey (item_id x) (col_key col) = k \<longrightarrow>
             or_empty (item_get x (col_key col)) = v"
    using Cons.prems(1) by simp
  have hit: "(\<exists>it \<in> set items. \<exists>col \<in> set cols. getCellKey (item_id it) (col_key col) = k)
         \<or> ?m1 k = Some v"
  proof (cases "(\<exists>col \<in> set cols. getCellKey (item_id x) (col_key col) = k) \<or> m k = Some v")
    case True
    then have "?m1 k = Some v" using fold_cols_lookup [of cols x k v m] allx by blast
    then show ?thesis by blast
  next
    case False
    with Cons.prems(2) show ?thesis by auto
  qed
  have "fold (\<lambda>it m. fold (\<lambda>col m'. m'(getCellKey (item_id it) (col_key col) \<mapsto>
                          or_empty (item_get it (col_key col)))) cols m) items ?m1 k = Some v"
    by (rule Cons.IH [of ?m1, OF all hit])
  then show ?case
    by (simp only: fold_simps comp_apply)
qed

lemma fold_items_other:
  "\<forall>it \<in> set items. \<forall>col \<in> set cols. getCellKey (item_id it) (col_key col) \<noteq> k \<Longrightarrow>
   fold (\<lambda>it m. fold (\<lambda>col m'. m'(getCellKey (item_id it) (col_key col) \<mapsto>
                    or_empty (item_get it (col_key col)))) cols m) items m k = m k"
  by (induction items arbitrary: m) (simp_all add: fold_cols_other)

text \<open>
  Every cell gets the value of its record, provided the cells that share its key
  (records with the same id, or ids and column keys that concatenate alike) carry
  the same value; a key of no cell gets no value.
\<close>

lemma initialValues_cell:
  assumes "it \<in> set items" "col \<in> set cols"
    and "\<forall>it' \<in> set items. \<forall>col' \<in> set cols.
           getCellKey (item_id it') (col_key col') = getCellKey (item_id it) (col_key col) \<longrightarrow>
           or_empty (item_get it' (col_key col')) = or_empty (item_get it (col_key col))"
  shows "initialValues items cols (getCellKey (item_id it) (col_key col))
         = Some (or_empty (item_get it (col_key col)))"
  unfolding initialValues_def
  using fold_items_lookup [of items cols "getCellKey (item_id it) (col_key col)"
      "or_empty (item_get it (col_key col))" Map.empty] assms by blast

lemma initialValues_other:
  "\<forall>it \<in> set items. \<forall>col \<in> set cols. getCellKey (item_id it) (col_key col) \<noteq> k \<Longrightarrow>
   initialValues items cols k = None"
  unfolding initialValues_def by (simp add: fold_items_other)


section \<open>The invariant of the saving marks\<close>

lemma patchKeys_append: "patchKeys (xs @ ys) = patchKeys xs @ patchKeys ys"
  by (induction xs rule: patchKeys.induct) simp_all

lemma patchKeys_member:
  "Patch i f v \<in> set qs \<Longrightarrow> getCellKey i f \<in> set (patchKeys qs)"
  by (induction qs rule: patchKeys.induct) auto

lemma patchKeys_remove1_Patch:
  "distinct (patchKeys qs) \<Longrightarrow> Patch i f v \<in> set qs \<Longrightarrow>
   distinct (patchKeys (remove1 (Patch i f v) qs))
   \<and> set (patchKeys (remove1 (Patch i f v) qs)) = set (patchKeys qs) - {getCellKey i f}"
proof (induction qs rule: patchKeys.induct)
  case 1
  then show ?case by simp
next
  case (2 i' f' v' qs)
  from "2.prems"(1) have fresh: "getCellKey i' f' \<notin> set (patchKeys qs)"
    and dist: "distinct (patchKeys qs)" by simp_all
  show ?case
  proof (cases "Patch i' f' v' = Patch i f v")
    case True
    then have "i' = i" "f' = f" by simp_all
    with True fresh dist show ?thesis by simp
  next
    case False
    with "2.prems"(2) have mem: "Patch i f v \<in> set qs" by auto
    then have "getCellKey i f \<in> set (patchKeys qs)" by (rule patchKeys_member)
    with fresh have neq: "getCellKey i' f' \<noteq> getCellKey i f" by auto
    from "2.IH" [OF dist mem] have
      ih1: "distinct (patchKeys (remove1 (Patch i f v) qs))" and
      ih2: "set (patchKeys (remove1 (Patch i f v) qs)) = set (patchKeys qs) - {getCellKey i f}"
      by simp_all
    have rm: "remove1 (Patch i f v) (Patch i' f' v' # qs) = Patch i' f' v' # remove1 (Patch i f v) qs"
      using False by auto
    show ?thesis
      unfolding rm using ih1 ih2 fresh neq by (simp add: insert_Diff_if)
  qed
next
  case (3 d qs)
  then show ?case by simp
next
  case (4 i' qs)
  then show ?case by simp
qed

lemma patchKeys_remove1_Post: "patchKeys (remove1 (Post d) qs) = patchKeys qs"
  by (induction qs rule: patchKeys.induct) auto

lemma patchKeys_remove1_Delete: "patchKeys (remove1 (Delete i) qs) = patchKeys qs"
  by (induction qs rule: patchKeys.induct) auto

lemma updates_in_patchKeys:
  "filter (is_update_of ident field) qs \<noteq> [] \<Longrightarrow> getCellKey ident field \<in> set (patchKeys qs)"
  by (induction qs rule: patchKeys.induct) (auto split: if_splits)

lemma distinct_patchKeys_updates:
  "distinct (patchKeys qs) \<Longrightarrow> length (filter (is_update_of ident field) qs) \<le> 1"
proof (induction qs rule: patchKeys.induct)
  case 1
  then show ?case by simp
next
  case (2 i f v qs)
  show ?case
  proof (cases "i = ident \<and> f = field")
    case True
    with 2 have "getCellKey ident field \<notin> set (patchKeys qs)" by auto
    then have "filter (is_update_of ident field) qs = []"
      using updates_in_patchKeys by blast
    with True show ?thesis by simp
  next
    case False
    with 2 show ?thesis by auto
  qed
next
  case (3 d qs)
  then show ?case by simp
next
  case (4 i qs)
  then show ?case by simp
qed

lemma saveCellValue_saving:
  "getCellKey ident field \<notin> loadingCells s \<Longrightarrow> saving_inv s \<Longrightarrow>
   saving_inv (saveCellValue s ident field)"
  by (auto simp: saving_inv_def saveCellValue_def toast_call_def fetch_def Let_def patchKeys_append)

lemma addNewRow_frame:
  "patchKeys (inflight (addNewRow s)) = patchKeys (inflight s)"
  "loadingCells (addNewRow s) = loadingCells s"
  by (simp_all add: addNewRow_def toast_call_def fetch_def patchKeys_append)

lemma settled_saving:
  assumes "saving_inv s" "q \<in> set (inflight s)"
  shows "saving_inv (handle s (Settled q r))"
proof (cases q)
  case (Patch i f v)
  with assms patchKeys_remove1_Patch [of "inflight s" i f v] show ?thesis
    by (simp add: saving_inv_def Let_def saveCellValue_settled_frame)
next
  case (Post d)
  with assms show ?thesis
    by (simp add: saving_inv_def Let_def addNewRow_settled_frame patchKeys_remove1_Post)
next
  case (Delete i)
  with assms show ?thesis
    by (simp add: saving_inv_def Let_def onDelete_settled_frame patchKeys_remove1_Delete)
qed

lemma step_saving: "saving_inv s \<Longrightarrow> saving_inv (step s e)"
proof (cases e)
  case (KeyDown_cell k shiftKey ident field)
  assume "saving_inv s"
  then show ?thesis
    using KeyDown_cell saveCellValue_saving [of ident field s]
    by (auto simp: step_def handleKeyDown_def editor_enabled_def saving_inv_def cancelEdit_frame)
next
  case (Click_save ident field)
  assume "saving_inv s"
  then show ?thesis
    using Click_save saveCellValue_saving [of ident field s]
    by (auto simp: step_def editor_enabled_def)
next
  case (Settled q r)
  assume "saving_inv s"
  then show ?thesis
    using Settled settled_saving [of s q r] by (auto simp: step_def)
qed (auto simp: step_def saving_inv_def startEditing_def handleCellChange_def cancelEdit_frame
      handleNewRowChange_def addNewRow_frame cancelNewRow_def onDelete_click_def fetch_def
      patchKeys_append)

lemma run_saving: "saving_inv s \<Longrightarrow> saving_inv (run s evs)"
  by (induction evs arbitrary: s) (simp_all add: step_saving)

lemma mount_saving: "saving_inv (mount items cols en)"
  by (simp add: saving_inv_def mount_def)


section \<open>Facts about the stream renderer\<close>

lemma concat_displayChars: "concat (displayChars s) = s"
  by (induction s rule: displayChars.induct) simp_all

lemma displayChars_Cons: "\<exists>t ts. displayChars (c # cs) = (c # t) # ts"
  by (cases cs) simp_all

lemma displayChars_Nil_iff: "displayChars s = [] \<longleftrightarrow> s = []"
  using displayChars_Cons [of "hd s" "tl s"] by (cases s) auto

text \<open>Cutting a text after whole display characters does not change how it is split.\<close>

lemma displayChars_take:
  "displayChars (concat (take n (displayChars s))) = take n (displayChars s)"
proof (induction s arbitrary: n rule: displayChars.induct)
  case 1
  show ?case by simp
next
  case (2 c)
  show ?case by (cases n) simp_all
next
  case (3 h l cs)
  show ?case
  proof (cases n)
    case 0
    then show ?thesis by simp
  next
    case (Suc m)
    show ?thesis
    proof (cases "isHighSurrogate h \<and> isLowSurrogate l")
      case True
      with Suc "3.IH"(1) [of m] show ?thesis by simp
    next
      case False
      have dc: "displayChars (h # l # cs) = [h] # displayChars (l # cs)"
        using False by simp
      have ih: "displayChars (concat (take m (displayChars (l # cs)))) = take m (displayChars (l # cs))"
        using "3.IH"(2) [OF False, of m] .
      have step: "displayChars (h # concat (take m (displayChars (l # cs))))
                  = [h] # displayChars (concat (take m (displayChars (l # cs))))"
      proof (cases m)
        case 0
        then show ?thesis by simp
      next
        case (Suc k)
        obtain t ts where eq: "displayChars (l # cs) = (l # t) # ts"
          using displayChars_Cons by blast
        have "concat (take m (displayChars (l # cs))) = l # (t @ concat (take k ts))"
          using Suc eq by simp
        then show ?thesis using False by simp
      qed
      show ?thesis
        unfolding \<open>n = Suc m\<close> dc using step ih by simp
    qed
  qed
qed

lemma streamTextByChar_length: "length (streamTextByChar S D) = length (displayChars S)"
  by (simp add: streamTextByChar_def del: upt_Suc)

lemma streamTextByChar_nth:
  "i < length (displayChars S) \<Longrightarrow>
   streamTextByChar S D ! i = concat (take (Suc i) (displayChars S))"
  by (simp add: streamTextByChar_def del: upt_Suc)

lemma streamTextByChar_last: "S \<noteq> [] \<Longrightarrow> last (streamTextByChar S D) = S"
proof -
  assume "S \<noteq> []"
  then have "displayChars S \<noteq> []"
    using displayChars_Nil_iff [of S] by simp
  then obtain n where n: "length (displayChars S) = Suc n"
    by (cases "displayChars S") simp_all
  have "streamTextByChar S D = map (\<lambda>k. concat (take k (displayChars S))) ([1..<Suc n] @ [Suc n])"
    by (simp add: streamTextByChar_def n)
  then have "last (streamTextByChar S D) = concat (take (Suc n) (displayChars S))"
    by (simp only: map_append last_snoc list.map)
  also have "\<dots> = S"
    using n by (simp add: concat_displayChars)
  finally show ?thesis .
qed

lemma concat_take_prefix: "take (length (concat (take n xss))) (concat xss) = concat (take n xss)"
proof -
  have "concat xss = concat (take n xss) @ concat (drop n xss)"
    by (metis append_take_drop_id concat_append)
  then show ?thesis by (metis append_eq_conv_conj)
qed

section \<open>Committing a cell\<close>

text \<open>
  Claim C1. Let a cell of a record of the table hold a pending value whose trimmed
  form \<open>trim v\<close> is not empty. Then \<open>saveCellValue\<close> sends the update of that cell
  with the trimmed value, and when the store answers with the record carrying
  that value, the value the cell takes from its record is \<open>trim v\<close> and the cell is
  no longer in \<open>editingCells\<close>.
\<close>

theorem commitEdit_success:
  assumes pending: "cellValues s (getCellKey ident field) = Some v"
    and nonempty: "trim v \<noteq> []"
    and row: "ident \<in> set (map item_id (data s))"
    and reply: "item_id updatedItem = ident" "item_get updatedItem field = Some (trim v)"
  shows "sent (saveCellValue s ident field) = sent s @ [Patch ident field (trim v)]
       \<and> authoritative
            (saveCellValue_settled (saveCellValue s ident field) ident field (Response True updatedItem))
            ident field = Some (trim v)
       \<and> getCellKey ident field \<notin> editingCells
            (saveCellValue_settled (saveCellValue s ident field) ident field (Response True updatedItem))"
proof -
  have s1: "saveCellValue s ident field =
      fetch (s\<lparr>loadingCells := insert (getCellKey ident field) (loadingCells s)\<rparr>)
        (Patch ident field (trim v))"
    using saveCellValue_valid [of s ident field] pending nonempty by (simp add: or_empty_def)
  have d1: "data (saveCellValue s ident field) = data s"
    by (simp add: s1 fetch_def)
  have a: "sent (saveCellValue s ident field) = sent s @ [Patch ident field (trim v)]"
    by (simp add: s1 fetch_def)
  have b: "authoritative
            (saveCellValue_settled (saveCellValue s ident field) ident field (Response True updatedItem))
            ident field = Some (trim v)"
    using row reply
    by (simp add: saveCellValue_settled_ok d1 authoritative_def toast_call_def
        stopEditing_def setMenuItems_def find_map_replace or_empty_def)
  have c: "getCellKey ident field \<notin> editingCells
            (saveCellValue_settled (saveCellValue s ident field) ident field (Response True updatedItem))"
    by (simp add: saveCellValue_settled_ok toast_call_def stopEditing_def setMenuItems_def)
  from a b c show ?thesis by blast
qed

text \<open>
  The price cell of \<open>ramen\<close> with \<open>" NT.120 "\<close> typed into it: the update carries
  \<open>NT.120\<close>, which becomes the record's price.
\<close>

lemma price_edit_pending:
  "cellValues price_edit (getCellKey (ascii ''7'') (ascii ''price'')) = Some (ascii '' NT.120 '')"
  by (simp add: price_edit_def handleCellChange_def)

lemma price_edit_data: "data price_edit = [ramen, gyoza]"
  by (simp add: price_edit_def handleCellChange_def startEditing_def menu_table_def mount_def)

lemma trim_price: "trim (ascii '' NT.120 '') = ascii ''NT.120''"
  by (simp add: trim_def isWhiteSpace_def ascii_def)

theorem commitEdit_success_witness:
  "sent (saveCellValue price_edit (ascii ''7'') (ascii ''price''))
     = [Patch (ascii ''7'') (ascii ''price'') (ascii ''NT.120'')]
   \<and> authoritative
        (saveCellValue_settled (saveCellValue price_edit (ascii ''7'') (ascii ''price''))
           (ascii ''7'') (ascii ''price'') (Response True ramen_updated))
        (ascii ''7'') (ascii ''price'') = Some (ascii ''NT.120'')
   \<and> getCellKey (ascii ''7'') (ascii ''price'') \<notin> editingCells
        (saveCellValue_settled (saveCellValue price_edit (ascii ''7'') (ascii ''price''))
           (ascii ''7'') (ascii ''price'') (Response True ramen_updated))"
proof -
  have h2: "trim (ascii '' NT.120 '') \<noteq> []"
    by (simp add: trim_price) (simp add: ascii_def)
  have h3: "ascii ''7'' \<in> set (map item_id (data price_edit))"
    by (simp add: price_edit_data ramen_def)
  have h4: "item_id ramen_updated = ascii ''7''"
    by (simp add: ramen_updated_def ramen_def)
  have h5: "item_get ramen_updated (ascii ''price'') = Some (trim (ascii '' NT.120 ''))"
    by (simp add: trim_price) (simp add: item_get_def ramen_updated_def ascii_def)
  have h6: "sent price_edit = []"
    by (simp add: price_edit_def handleCellChange_def startEditing_def menu_table_def mount_def)
  show ?thesis
    using commitEdit_success [OF price_edit_pending h2 h3 h4 h5]
    by (simp add: trim_price h6)
qed

text \<open>
  Claim C2. When the pending value of a cell is empty or consists of white space
  only, \<open>saveCellValue\<close> sends no request, shows the destructive notice
  \<open>Field cannot be empty\<close>, and leaves \<open>editingCells\<close> (and every other part of the
  state but the notices) as it was.
\<close>

theorem commitEdit_blank:
  assumes "\<forall>c \<in> set (or_empty (cellValues s (getCellKey ident field))). isWhiteSpace c"
  shows "sent (saveCellValue s ident field) = sent s
       \<and> inflight (saveCellValue s ident field) = inflight s
       \<and> toasts (saveCellValue s ident field) = toasts s @ [toast_field_empty (isEnglish s)]
       \<and> variant (toast_field_empty (isEnglish s)) = Destructive
       \<and> editingCells (saveCellValue s ident field) = editingCells s
       \<and> loadingCells (saveCellValue s ident field) = loadingCells s
       \<and> cellValues (saveCellValue s ident field) = cellValues s
       \<and> data (saveCellValue s ident field) = data s"
  using assms saveCellValue_invalid [of s ident field]
  by (simp add: trim_empty_iff toast_call_def toast_field_empty_def)

text \<open>A name cell holding a space, an ideographic space and a tab is not saved.\<close>

theorem commitEdit_blank_witness:
  "sent (saveCellValue blank_edit (ascii ''7'') (ascii ''name'')) = []
   \<and> toasts (saveCellValue blank_edit (ascii ''7'') (ascii ''name'')) = [toast_field_empty True]
   \<and> getCellKey (ascii ''7'') (ascii ''name'')
        \<in> editingCells (saveCellValue blank_edit (ascii ''7'') (ascii ''name''))"
proof -
  have v: "cellValues blank_edit (getCellKey (ascii ''7'') (ascii ''name'')) = Some [0x20, 0x3000, 0x9]"
    by (simp add: blank_edit_def handleCellChange_def)
  have h: "\<forall>c \<in> set (or_empty (cellValues blank_edit (getCellKey (ascii ''7'') (ascii ''name'')))).
             isWhiteSpace c"
    by (simp add: v or_empty_def isWhiteSpace_def)
  have f: "sent blank_edit = []" "toasts blank_edit = []" "isEnglish blank_edit"
    "getCellKey (ascii ''7'') (ascii ''name'') \<in> editingCells blank_edit"
    by (simp_all add: blank_edit_def handleCellChange_def startEditing_def menu_table_def mount_def)
  show ?thesis
    using commitEdit_blank [OF h] f by simp
qed


section \<open>One update in flight per cell\<close>

text \<open>
  \<open>saveCellValue\<close> itself does not read \<open>loadingCells\<close>: called twice in a row it
  sends two updates. What keeps a second commit away is \<open>renderCell\<close>, which
  disables the input and both buttons of a cell while its key is in \<open>loadingCells\<close>.
\<close>

lemma saveCellValue_itself_unguarded:
  "length (updates_inflight
      (saveCellValue (saveCellValue price_edit (ascii ''7'') (ascii ''price''))
         (ascii ''7'') (ascii ''price''))
      (ascii ''7'') (ascii ''price'')) = 2"
  by (simp add: updates_inflight_def saveCellValue_def Let_def fetch_def price_edit_def
      handleCellChange_def startEditing_def menu_table_def mount_def or_empty_def trim_def
      isWhiteSpace_def ascii_def)

text \<open>
  Claim C3. In every state that a mounted table reaches through the events its
  controls deliver and the settling of its requests, at most one update call is
  pending for any record id and field key; and while one is pending, a click on
  the cell's save button or the Enter key in its input changes nothing: the second
  commit is refused, because the controls are disabled.
\<close>

theorem one_update_in_flight:
  "length (updates_inflight (run (mount items cols en) evs) ident field) \<le> 1
   \<and> (updates_inflight (run (mount items cols en) evs) ident field \<noteq> [] \<longrightarrow>
        step (run (mount items cols en) evs) (Click_save ident field)
          = run (mount items cols en) evs
      \<and> step (run (mount items cols en) evs) (KeyDown_cell Enter False ident field)
          = run (mount items cols en) evs)"
proof -
  have inv: "saving_inv (run (mount items cols en) evs)"
    by (simp add: run_saving mount_saving)
  then have "length (updates_inflight (run (mount items cols en) evs) ident field) \<le> 1"
    unfolding updates_inflight_def saving_inv_def
    using distinct_patchKeys_updates by blast
  moreover have "getCellKey ident field \<in> loadingCells (run (mount items cols en) evs)"
    if "updates_inflight (run (mount items cols en) evs) ident field \<noteq> []"
    using that inv updates_in_patchKeys [of ident field "inflight (run (mount items cols en) evs)"]
    by (auto simp: updates_inflight_def saving_inv_def)
  ultimately show ?thesis
    by (auto simp: step_def editor_enabled_def)
qed

text \<open>
  The price cell of \<open>ramen\<close> is opened, changed and saved: one update is pending, and
  a second click on the save button leaves the state as it is.
\<close>

lemma menu_run_inflight:
  "inflight (run menu_table
      [Click_cell (ascii ''7'') (ascii ''price''),
       Change_cell (ascii ''7'') (ascii ''price'') (ascii ''NT.120''),
       Click_save (ascii ''7'') (ascii ''price'')])
   = [Patch (ascii ''7'') (ascii ''price'') (ascii ''NT.120'')]"
  by (simp add: menu_table_def mount_def step_def rendered_def editor_enabled_def
      startEditing_def handleCellChange_def saveCellValue_def fetch_def Let_def or_empty_def
      menuColumns_def ramen_def gyoza_def getCellKey_def trim_def isWhiteSpace_def ascii_def)

theorem one_update_in_flight_witness:
  "updates_inflight
     (run (mount [ramen, gyoza] (menuColumns True) True)
        [Click_cell (ascii ''7'') (ascii ''price''),
         Change_cell (ascii ''7'') (ascii ''price'') (ascii ''NT.120''),
         Click_save (ascii ''7'') (ascii ''price'')])
     (ascii ''7'') (ascii ''price'')
     = [Patch (ascii ''7'') (ascii ''price'') (ascii ''NT.120'')]
   \<and> step (run (mount [ramen, gyoza] (menuColumns True) True)
        [Click_cell (ascii ''7'') (ascii ''price''),
         Change_cell (ascii ''7'') (ascii ''price'') (ascii ''NT.120''),
         Click_save (ascii ''7'') (ascii ''price'')])
       (Click_save (ascii ''7'') (ascii ''price''))
     = run (mount [ramen, gyoza] (menuColumns True) True)
        [Click_cell (ascii ''7'') (ascii ''price''),
         Change_cell (ascii ''7'') (ascii ''price'') (ascii ''NT.120''),
         Click_save (ascii ''7'') (ascii ''price'')]"
proof -
  have u: "updates_inflight
     (run (mount [ramen, gyoza] (menuColumns True) True)
        [Click_cell (ascii ''7'') (ascii ''price''),
         Change_cell (ascii ''7'') (ascii ''price'') (ascii ''NT.120''),
         Click_save (ascii ''7'') (ascii ''price'')])
     (ascii ''7'') (ascii ''price'')
     = [Patch (ascii ''7'') (ascii ''price'') (ascii ''NT.120'')]"
    unfolding updates_inflight_def menu_run_inflight [unfolded menu_table_def] by simp
  show ?thesis
    using one_update_in_flight [of "[ramen, gyoza]" "menuColumns True" True
        "[Click_cell (ascii ''7'') (ascii ''price''),
          Change_cell (ascii ''7'') (ascii ''price'') (ascii ''NT.120''),
          Click_save (ascii ''7'') (ascii ''price'')]" "ascii ''7''" "ascii ''price''"]
    unfolding u by simp
qed

text \<open>
  Claim C10. Whatever the outcome of the update, the code after the \<open>await\<close> of
  \<open>saveCellValue\<close> ends by taking the cell key out of \<open>loadingCells\<close>; and in every
  state a mounted table reaches, the cells marked as saving are exactly the cells
  with a pending update, so that no mark outlives its request.
\<close>

theorem saving_mark_removed:
  "getCellKey ident field \<notin> loadingCells (saveCellValue_settled s ident field r)
   \<and> loadingCells (saveCellValue_settled s ident field r) = loadingCells s - {getCellKey ident field}
   \<and> loadingCells (run (mount items cols en) evs)
       = set (patchKeys (inflight (run (mount items cols en) evs)))"
proof -
  have "saving_inv (run (mount items cols en) evs)"
    by (simp add: run_saving mount_saving)
  then show ?thesis
    by (simp add: saveCellValue_settled_frame saving_inv_def)
qed

text \<open>The saving mark of the price cell is gone after a rejected and after an accepted update.\<close>

theorem saving_mark_removed_witness:
  "loadingCells (saveCellValue price_edit (ascii ''7'') (ascii ''price''))
     = {getCellKey (ascii ''7'') (ascii ''price'')}
   \<and> loadingCells (saveCellValue_settled (saveCellValue price_edit (ascii ''7'') (ascii ''price''))
        (ascii ''7'') (ascii ''price'') Rejected) = {}
   \<and> loadingCells (saveCellValue_settled (saveCellValue price_edit (ascii ''7'') (ascii ''price''))
        (ascii ''7'') (ascii ''price'') (Response True ramen_updated)) = {}"
proof -
  have l: "loadingCells (saveCellValue price_edit (ascii ''7'') (ascii ''price''))
     = {getCellKey (ascii ''7'') (ascii ''price'')}"
    by (simp add: saveCellValue_def Let_def fetch_def price_edit_def handleCellChange_def
        startEditing_def menu_table_def mount_def or_empty_def)
       (simp add: trim_def isWhiteSpace_def ascii_def)
  show ?thesis
    using saving_mark_removed [of "ascii ''7''" "ascii ''price''"
        "saveCellValue price_edit (ascii ''7'') (ascii ''price'')" Rejected]
      saving_mark_removed [of "ascii ''7''" "ascii ''price''"
        "saveCellValue price_edit (ascii ''7'') (ascii ''price'')" "Response True ramen_updated"]
    by (simp add: l)
qed


section \<open>Adding a row\<close>

text \<open>
  Claim C4, as the code has it. If some column's draft field is empty after
  trimming, \<open>addNewRow\<close> shows the destructive notice \<open>Please fill all fields\<close>, the
  same text whichever fields are missing, sends no request, and leaves the draft
  row, the adding flag and the collection as they were. If every column's draft
  field is non-empty after trimming, it sends the draft, and when the store
  answers with the created record, that record is put in front of the collection,
  the draft is emptied and the adding flag is cleared.
\<close>

theorem addNewRow_validates:
  "(col \<in> set (columns s) \<and> trim (or_empty (newRow s (col_key col))) = [] \<longrightarrow>
      toasts (addNewRow s) = toasts s @ [toast_fill_all (isEnglish s)]
      \<and> variant (toast_fill_all (isEnglish s)) = Destructive
      \<and> sent (addNewRow s) = sent s \<and> inflight (addNewRow s) = inflight s
      \<and> newRow (addNewRow s) = newRow s \<and> isAddingRow (addNewRow s) = isAddingRow s
      \<and> data (addNewRow s) = data s)
   \<and> ((\<forall>c \<in> set (columns s). trim (or_empty (newRow s (col_key c))) \<noteq> []) \<longrightarrow>
      sent (addNewRow s) = sent s @ [Post (newRow s)]
      \<and> data (addNewRow_settled (addNewRow s) (Response True newItem)) = newItem # data s
      \<and> newRow (addNewRow_settled (addNewRow s) (Response True newItem)) = Map.empty
      \<and> \<not> isAddingRow (addNewRow_settled (addNewRow s) (Response True newItem)))"
proof -
  have a: "missingFields s \<noteq> []"
    if "col \<in> set (columns s)" "trim (or_empty (newRow s (col_key col))) = []"
    using that missingFields_nonempty_iff by blast
  have b: "missingFields s = []"
    if "\<forall>c \<in> set (columns s). trim (or_empty (newRow s (col_key c))) \<noteq> []"
    using that missingFields_nonempty_iff by blast
  show ?thesis
    using a b
    by (auto simp: addNewRow_def toast_call_def fetch_def addNewRow_settled_def addMenuItem_def
        setMenuItems_def toast_fill_all_def)
qed

text \<open>
  A restaurant detail without its description is refused; with the description it
  is sent, and the created record becomes the first of the collection.
\<close>

lemma draft_missing_facts:
  "columns draft_missing_description = restaurantColumns True"
  "newRow draft_missing_description = [ascii ''details'' \<mapsto> ascii ''Opening Hours'']"
  "toasts draft_missing_description = []"
  "sent draft_missing_description = []"
  "data draft_missing_description = []"
  "isEnglish draft_missing_description"
  by (simp_all add: draft_missing_description_def mount_def)

lemma draft_complete_facts:
  "columns draft_complete = restaurantColumns True"
  "newRow draft_complete = [ascii ''details'' \<mapsto> ascii ''Opening Hours'',
                            ascii ''description'' \<mapsto> ascii ''11:30 - 21:30'']"
  "sent draft_complete = []"
  "data draft_complete = []"
  by (simp_all add: draft_complete_def handleNewRowChange_def draft_missing_facts)

theorem addNewRow_validates_witness:
  "toasts (addNewRow draft_missing_description) = [toast_fill_all True]
   \<and> sent (addNewRow draft_missing_description) = []
   \<and> data (addNewRow draft_missing_description) = []
   \<and> sent (addNewRow draft_complete) = [Post (newRow draft_complete)]
   \<and> data (addNewRow_settled (addNewRow draft_complete) (Response True new_detail)) = [new_detail]
   \<and> newRow (addNewRow_settled (addNewRow draft_complete) (Response True new_detail)) = Map.empty"
proof -
  have m: "restaurantColumns True ! 1 \<in> set (columns draft_missing_description)
           \<and> trim (or_empty (newRow draft_missing_description (col_key (restaurantColumns True ! 1)))) = []"
    by (simp add: draft_missing_facts restaurantColumns_def or_empty_def trim_def ascii_def)
  have c: "\<forall>c \<in> set (columns draft_complete). trim (or_empty (newRow draft_complete (col_key c))) \<noteq> []"
    by (simp add: draft_complete_facts restaurantColumns_def or_empty_def trim_def isWhiteSpace_def
        ascii_def)
  show ?thesis
    using addNewRow_validates [of "restaurantColumns True ! 1" draft_missing_description new_detail]
      addNewRow_validates [of "restaurantColumns True ! 1" draft_complete new_detail] m c
    by (simp add: draft_missing_facts draft_complete_facts)
qed

text \<open>
  The notice does not name the missing field: for the draft without description
  neither the key \<open>description\<close> nor the label \<open>Description\<close> occurs in it.
\<close>

theorem validation_notice_names_no_field:
  "map col_key (missingFields draft_missing_description) = [ascii ''description'']
   \<and> toasts (addNewRow draft_missing_description) = [toast_fill_all True]
   \<and> \<not> names_column (last (toasts (addNewRow draft_missing_description)))
          (hd (missingFields draft_missing_description))"
  by (simp add: draft_missing_description_def mount_def restaurantColumns_def missingFields_def
      addNewRow_def toast_call_def toast_fill_all_def names_column_def ascii_def trim_def
      isWhiteSpace_def)


section \<open>Deleting a row\<close>

text \<open>
  Claim C5 asks that a failed delete keeps the record and shows an error notice.
  The record is kept, but no notice is shown: the rejection of \<open>deleteMenuItem\<close>
  is caught nowhere. For the record \<open>ramen\<close> and a response that is not \<open>ok\<close>:
\<close>

theorem delete_failure_shows_no_notice:
  "sent (step menu_table (Click_delete (ascii ''7''))) = [Delete (ascii ''7'')]
   \<and> data (step (step menu_table (Click_delete (ascii ''7'')))
              (Settled (Delete (ascii ''7'')) (Response False ramen))) = [ramen, gyoza]
   \<and> toasts (step (step menu_table (Click_delete (ascii ''7'')))
              (Settled (Delete (ascii ''7'')) (Response False ramen))) = []
   \<and> unhandled (step (step menu_table (Click_delete (ascii ''7'')))
              (Settled (Delete (ascii ''7'')) (Response False ramen)))
       = [Error (ascii ''Failed to delete menu item'')]"
  by (simp add: menu_table_def mount_def step_def onDelete_click_def fetch_def
      onDelete_settled_def deleteMenuItem_def Let_def ramen_def gyoza_def ascii_def)


section \<open>Cancelling an edit\<close>

text \<open>
  Claim C6. Whatever was typed into a cell, \<open>cancelEdit\<close> takes the cell out of
  \<open>editingCells\<close>, sends no request and leaves the collection alone; and when the
  record of the cell is in the collection, the pending value of the cell is again
  the value of the record.
\<close>

theorem cancelEdit_restores:
  "getCellKey ident field \<notin> editingCells (cancelEdit (handleCellChange s ident field typed) ident field)
   \<and> sent (cancelEdit (handleCellChange s ident field typed) ident field) = sent s
   \<and> inflight (cancelEdit (handleCellChange s ident field typed) ident field) = inflight s
   \<and> data (cancelEdit (handleCellChange s ident field typed) ident field) = data s
   \<and> (\<forall>a. authoritative s ident field = Some a \<longrightarrow>
          cellValues (cancelEdit (handleCellChange s ident field typed) ident field)
            (getCellKey ident field) = Some a)"
  by (auto simp: cancelEdit_def handleCellChange_def stopEditing_def authoritative_def Let_def
      split: option.splits)

text \<open>The price cell of \<open>ramen\<close>, with \<open>" NT.120 "\<close> typed, shows \<open>NT.100\<close> again.\<close>

theorem cancelEdit_restores_witness:
  "authoritative (startEditing menu_table (ascii ''7'') (ascii ''price'')) (ascii ''7'') (ascii ''price'')
     = Some (ascii ''NT.100'')
   \<and> cellValues price_edit (getCellKey (ascii ''7'') (ascii ''price'')) = Some (ascii '' NT.120 '')
   \<and> cellValues (cancelEdit price_edit (ascii ''7'') (ascii ''price''))
        (getCellKey (ascii ''7'') (ascii ''price'')) = Some (ascii ''NT.100'')
   \<and> getCellKey (ascii ''7'') (ascii ''price'')
        \<notin> editingCells (cancelEdit price_edit (ascii ''7'') (ascii ''price''))"
proof -
  have a: "authoritative (startEditing menu_table (ascii ''7'') (ascii ''price''))
             (ascii ''7'') (ascii ''price'') = Some (ascii ''NT.100'')"
    by (simp add: authoritative_def startEditing_def menu_table_def mount_def ramen_def
        item_get_def or_empty_def ascii_def)
  have p: "cellValues price_edit (getCellKey (ascii ''7'') (ascii ''price'')) = Some (ascii '' NT.120 '')"
    by (simp add: price_edit_def handleCellChange_def)
  show ?thesis
    using cancelEdit_restores [of "ascii ''7''" "ascii ''price''"
        "startEditing menu_table (ascii ''7'') (ascii ''price'')" "ascii '' NT.120 ''"] a p
    by (simp add: price_edit_def)
qed


section \<open>The effect that re-initialises the pending values\<close>

text \<open>
  Claim C9. After every change of the collection, and so after a successful
  commit of one cell, which replaces the cell's record, the pending value of every
  cell is taken from its record: for every record of the new collection and every
  column the pending value is \<open>item[column.key] || ""\<close> (cells whose keys coincide
  are written one after the other, so this is said for cells whose namesakes carry
  the same value), and a key that belongs to no cell has no pending value. The
  cells that were being edited stay in \<open>editingCells\<close>, apart from the committed one,
  and what was typed into them has no influence on the result. As a whole,
  \<open>cellValues\<close> is \<open>initialValues\<close> of the new collection.
\<close>

theorem data_change_resets:
  "cellValues (setMenuItems s f) = initialValues (f (data s)) (columns s)
   \<and> editingCells (setMenuItems s f) = editingCells s
   \<and> cellValues (saveCellValue_settled s ident field (Response True updatedItem))
       = initialValues (data (saveCellValue_settled s ident field (Response True updatedItem)))
           (columns s)
   \<and> editingCells (saveCellValue_settled s ident field (Response True updatedItem))
       = editingCells s - {getCellKey ident field}
   \<and> cellValues (saveCellValue_settled (handleCellChange s ident2 field2 typed) ident field
         (Response True updatedItem))
       = cellValues (saveCellValue_settled s ident field (Response True updatedItem))
   \<and> data (saveCellValue_settled s ident field (Response True updatedItem))
       = map (\<lambda>x. if item_id x = ident then updatedItem else x) (data s)
   \<and> (it \<in> set (f (data s)) \<and> col \<in> set (columns s)
       \<and> (\<forall>it' \<in> set (f (data s)). \<forall>col' \<in> set (columns s).
             getCellKey (item_id it') (col_key col') = getCellKey (item_id it) (col_key col) \<longrightarrow>
             or_empty (item_get it' (col_key col')) = or_empty (item_get it (col_key col)))
       \<longrightarrow> cellValues (setMenuItems s f) (getCellKey (item_id it) (col_key col))
             = Some (or_empty (item_get it (col_key col))))
   \<and> (it \<in> set (data (saveCellValue_settled s ident field (Response True updatedItem)))
       \<and> col \<in> set (columns s)
       \<and> (\<forall>it' \<in> set (data (saveCellValue_settled s ident field (Response True updatedItem))).
           \<forall>col' \<in> set (columns s).
             getCellKey (item_id it') (col_key col') = getCellKey (item_id it) (col_key col) \<longrightarrow>
             or_empty (item_get it' (col_key col')) = or_empty (item_get it (col_key col)))
       \<longrightarrow> cellValues (saveCellValue_settled s ident field (Response True updatedItem))
               (getCellKey (item_id it) (col_key col))
             = Some (or_empty (item_get it (col_key col))))
   \<and> ((\<forall>it' \<in> set (f (data s)). \<forall>col' \<in> set (columns s).
           getCellKey (item_id it') (col_key col') \<noteq> k)
       \<longrightarrow> cellValues (setMenuItems s f) k = None)
   \<and> ((\<forall>it' \<in> set (data (saveCellValue_settled s ident field (Response True updatedItem))).
         \<forall>col' \<in> set (columns s). getCellKey (item_id it') (col_key col') \<noteq> k)
       \<longrightarrow> cellValues (saveCellValue_settled s ident field (Response True updatedItem)) k = None)"
proof -
  let ?t = "saveCellValue_settled s ident field (Response True updatedItem)"
  have c1: "cellValues (setMenuItems s f) = initialValues (f (data s)) (columns s)"
    by (simp add: setMenuItems_def)
  have e1: "editingCells (setMenuItems s f) = editingCells s"
    by (simp add: setMenuItems_def)
  have d2: "data ?t = map (\<lambda>x. if item_id x = ident then updatedItem else x) (data s)"
    by (simp add: saveCellValue_settled_ok setMenuItems_def toast_call_def stopEditing_def)
  have c2: "cellValues ?t = initialValues (data ?t) (columns s)"
    by (simp add: saveCellValue_settled_ok setMenuItems_def toast_call_def stopEditing_def)
  have e2: "editingCells ?t = editingCells s - {getCellKey ident field}"
    by (simp add: saveCellValue_settled_ok setMenuItems_def toast_call_def stopEditing_def)
  have t2: "cellValues (saveCellValue_settled (handleCellChange s ident2 field2 typed) ident field
         (Response True updatedItem)) = cellValues ?t"
    by (simp add: saveCellValue_settled_ok setMenuItems_def toast_call_def stopEditing_def
        handleCellChange_def)
  have p1: "cellValues (setMenuItems s f) (getCellKey (item_id it) (col_key col))
             = Some (or_empty (item_get it (col_key col)))"
    if "it \<in> set (f (data s))" "col \<in> set (columns s)"
      "\<forall>it' \<in> set (f (data s)). \<forall>col' \<in> set (columns s).
             getCellKey (item_id it') (col_key col') = getCellKey (item_id it) (col_key col) \<longrightarrow>
             or_empty (item_get it' (col_key col')) = or_empty (item_get it (col_key col))"
    unfolding c1 using that by (rule initialValues_cell)
  have p2: "cellValues ?t (getCellKey (item_id it) (col_key col))
             = Some (or_empty (item_get it (col_key col)))"
    if "it \<in> set (data ?t)" "col \<in> set (columns s)"
      "\<forall>it' \<in> set (data ?t). \<forall>col' \<in> set (columns s).
             getCellKey (item_id it') (col_key col') = getCellKey (item_id it) (col_key col) \<longrightarrow>
             or_empty (item_get it' (col_key col')) = or_empty (item_get it (col_key col))"
    unfolding c2 using that by (rule initialValues_cell)
  have n1: "cellValues (setMenuItems s f) k = None"
    if "\<forall>it' \<in> set (f (data s)). \<forall>col' \<in> set (columns s).
           getCellKey (item_id it') (col_key col') \<noteq> k"
    unfolding c1 using that by (rule initialValues_other)
  have n2: "cellValues ?t k = None"
    if "\<forall>it' \<in> set (data ?t). \<forall>col' \<in> set (columns s).
           getCellKey (item_id it') (col_key col') \<noteq> k"
    unfolding c2 using that by (rule initialValues_other)
  from c1 e1 c2 e2 t2 d2 p1 p2 n1 n2 show ?thesis by blast
qed

text \<open>
  While the name cell of \<open>gyoza\<close> holds the uncommitted \<open>Dumpling\<close>, the price of
  \<open>ramen\<close> is saved: the name cell is still being edited and shows \<open>Gyoza\<close> again,
  the price cell of \<open>gyoza\<close> shows \<open>NT.60\<close>, and no other key has a value.
\<close>

lemma two_edits_facts:
  "data two_edits = [ramen, gyoza]"
  "columns two_edits = menuColumns True"
  "editingCells two_edits
     = {getCellKey (ascii ''8'') (ascii ''name''), getCellKey (ascii ''7'') (ascii ''price'')}"
  "cellValues two_edits (getCellKey (ascii ''8'') (ascii ''name'')) = Some (ascii ''Dumpling'')"
  by (simp_all add: two_edits_def price_edit_def handleCellChange_def startEditing_def
      menu_table_def mount_def)

lemma two_edits_settled_data:
  "data (saveCellValue_settled two_edits (ascii ''7'') (ascii ''price'')
           (Response True ramen_updated)) = [ramen_updated, gyoza]"
  by (simp add: saveCellValue_settled_ok toast_call_def stopEditing_def setMenuItems_def
      two_edits_facts) (simp add: ramen_def gyoza_def ascii_def)

lemma gyoza_cells_unshared:
  "\<forall>it' \<in> set [ramen_updated, gyoza]. \<forall>col' \<in> set (menuColumns True).
     getCellKey (item_id it') (col_key col') = getCellKey (item_id gyoza) (col_key (menuColumns True ! n))
     \<longrightarrow> or_empty (item_get it' (col_key col')) = or_empty (item_get gyoza (col_key (menuColumns True ! n)))"
  if "n < 3" for n
proof -
  from that consider "n = 0" | "n = 1" | "n = 2" by linarith
  then show ?thesis
    by cases
       (simp_all add: menuColumns_def ramen_updated_def ramen_def gyoza_def getCellKey_def ascii_def)
qed

theorem data_change_resets_witness:
  "cellValues two_edits (getCellKey (ascii ''8'') (ascii ''name'')) = Some (ascii ''Dumpling'')
   \<and> cellValues (saveCellValue_settled two_edits (ascii ''7'') (ascii ''price'')
          (Response True ramen_updated))
        (getCellKey (ascii ''8'') (ascii ''name'')) = Some (ascii ''Gyoza'')
   \<and> cellValues (saveCellValue_settled two_edits (ascii ''7'') (ascii ''price'')
          (Response True ramen_updated))
        (getCellKey (ascii ''8'') (ascii ''price'')) = Some (ascii ''NT.60'')
   \<and> cellValues (saveCellValue_settled two_edits (ascii ''7'') (ascii ''price'')
          (Response True ramen_updated))
        (ascii ''9-name'') = None
   \<and> getCellKey (ascii ''8'') (ascii ''name'')
        \<in> editingCells (saveCellValue_settled two_edits (ascii ''7'') (ascii ''price'')
              (Response True ramen_updated))"
proof -
  let ?t = "saveCellValue_settled two_edits (ascii ''7'') (ascii ''price'')
              (Response True ramen_updated)"
  have mem: "gyoza \<in> set (data ?t)"
    by (simp add: two_edits_settled_data)
  have cols: "menuColumns True ! 0 \<in> set (columns two_edits)"
    "menuColumns True ! 1 \<in> set (columns two_edits)"
    by (simp_all add: two_edits_facts menuColumns_def)
  have u0: "\<forall>it' \<in> set (data ?t). \<forall>col' \<in> set (columns two_edits).
     getCellKey (item_id it') (col_key col') = getCellKey (item_id gyoza) (col_key (menuColumns True ! 0))
     \<longrightarrow> or_empty (item_get it' (col_key col')) = or_empty (item_get gyoza (col_key (menuColumns True ! 0)))"
    unfolding two_edits_settled_data two_edits_facts by (rule gyoza_cells_unshared) simp
  have u1: "\<forall>it' \<in> set (data ?t). \<forall>col' \<in> set (columns two_edits).
     getCellKey (item_id it') (col_key col') = getCellKey (item_id gyoza) (col_key (menuColumns True ! 1))
     \<longrightarrow> or_empty (item_get it' (col_key col')) = or_empty (item_get gyoza (col_key (menuColumns True ! 1)))"
    unfolding two_edits_settled_data two_edits_facts by (rule gyoza_cells_unshared) simp
  have none: "\<forall>it' \<in> set (data ?t). \<forall>col' \<in> set (columns two_edits).
       getCellKey (item_id it') (col_key col') \<noteq> ascii ''9-name''"
    unfolding two_edits_settled_data two_edits_facts
    by (simp add: menuColumns_def ramen_updated_def ramen_def gyoza_def getCellKey_def ascii_def)
  note thm0 = data_change_resets [where s = two_edits and f = id and ident = "ascii ''7''"
        and field = "ascii ''price''" and updatedItem = ramen_updated
        and ?ident2.0 = "ascii ''8''" and ?field2.0 = "ascii ''name''" and typed = "ascii ''Dumpling''"
        and it = gyoza and col = "menuColumns True ! 0" and k = "ascii ''9-name''"]
  note thm1 = data_change_resets [where s = two_edits and f = id and ident = "ascii ''7''"
        and field = "ascii ''price''" and updatedItem = ramen_updated
        and ?ident2.0 = "ascii ''8''" and ?field2.0 = "ascii ''name''" and typed = "ascii ''Dumpling''"
        and it = gyoza and col = "menuColumns True ! 1" and k = "ascii ''9-name''"]
  have a0: "cellValues ?t (getCellKey (item_id gyoza) (col_key (menuColumns True ! 0)))
            = Some (or_empty (item_get gyoza (col_key (menuColumns True ! 0))))"
    using thm0 mem cols(1) u0 by blast
  have a1: "cellValues ?t (getCellKey (item_id gyoza) (col_key (menuColumns True ! 1)))
            = Some (or_empty (item_get gyoza (col_key (menuColumns True ! 1))))"
    using thm1 mem cols(2) u1 by blast
  have a2: "cellValues ?t (ascii ''9-name'') = None"
    using thm0 none by blast
  have a3: "editingCells ?t = editingCells two_edits - {getCellKey (ascii ''7'') (ascii ''price'')}"
    using thm0 by blast
  have k: "getCellKey (ascii ''8'') (ascii ''name'') \<noteq> getCellKey (ascii ''7'') (ascii ''price'')"
    by (simp add: getCellKey_def ascii_def)
  have keys: "getCellKey (item_id gyoza) (col_key (menuColumns True ! 0))
                = getCellKey (ascii ''8'') (ascii ''name'')"
    "getCellKey (item_id gyoza) (col_key (menuColumns True ! 1))
                = getCellKey (ascii ''8'') (ascii ''price'')"
    by (simp_all add: menuColumns_def gyoza_def)
  have vals: "or_empty (item_get gyoza (col_key (menuColumns True ! 0))) = ascii ''Gyoza''"
    "or_empty (item_get gyoza (col_key (menuColumns True ! 1))) = ascii ''NT.60''"
    by (simp_all add: menuColumns_def gyoza_def item_get_def or_empty_def ascii_def)
  have e: "getCellKey (ascii ''8'') (ascii ''name'') \<in> editingCells ?t"
    unfolding a3 using k by (simp add: two_edits_facts)
  from a0 a1 a2 e show ?thesis
    unfolding keys vals by (simp add: two_edits_facts)
qed


section \<open>The sequence of revealed prefixes\<close>

text \<open>
  Claim C7. \<open>streamTextByChar S D\<close> has as many elements as \<open>S\<close> has display
  characters; its element \<open>i\<close> consists of the first \<open>i + 1\<close> display characters of
  \<open>S\<close> and is a prefix of \<open>S\<close>, so each element is one display character longer
  than the one before; for a non-empty \<open>S\<close> the last element is \<open>S\<close>; and for the
  empty string there is no element.
\<close>

theorem reveal_prefixes:
  "length (streamTextByChar S D) = length (displayChars S)
   \<and> (\<forall>i < length (displayChars S).
         displayChars (streamTextByChar S D ! i) = take (Suc i) (displayChars S)
       \<and> length (displayChars (streamTextByChar S D ! i)) = Suc i
       \<and> take (length (streamTextByChar S D ! i)) S = streamTextByChar S D ! i)
   \<and> (S \<noteq> [] \<longrightarrow> last (streamTextByChar S D) = S)
   \<and> streamTextByChar [] D = []"
proof -
  have "displayChars (streamTextByChar S D ! i) = take (Suc i) (displayChars S)
       \<and> length (displayChars (streamTextByChar S D ! i)) = Suc i
       \<and> take (length (streamTextByChar S D ! i)) S = streamTextByChar S D ! i"
    if "i < length (displayChars S)" for i
  proof -
    have n: "streamTextByChar S D ! i = concat (take (Suc i) (displayChars S))"
      using that by (rule streamTextByChar_nth)
    have a: "displayChars (streamTextByChar S D ! i) = take (Suc i) (displayChars S)"
      unfolding n by (rule displayChars_take)
    have b: "length (displayChars (streamTextByChar S D ! i)) = Suc i"
      unfolding a using that by simp
    have c: "take (length (streamTextByChar S D ! i)) S = streamTextByChar S D ! i"
      unfolding n using concat_take_prefix [of "Suc i" "displayChars S"]
      by (simp only: concat_displayChars)
    from a b c show ?thesis by blast
  qed
  moreover have "streamTextByChar [] D = []"
    by (simp add: streamTextByChar_def)
  ultimately show ?thesis
    using streamTextByChar_length streamTextByChar_last by blast
qed

text \<open>The letter O, an emoji beyond the basic plane (two code units) and the letter k.\<close>

theorem reveal_prefixes_witness:
  "streamTextByChar [0x4F, 0xD83D, 0xDE00, 0x6B] 15
     = [[0x4F], [0x4F, 0xD83D, 0xDE00], [0x4F, 0xD83D, 0xDE00, 0x6B]]
   \<and> displayChars (streamTextByChar [0x4F, 0xD83D, 0xDE00, 0x6B] 15 ! 1) = [[0x4F], [0xD83D, 0xDE00]]
   \<and> length (displayChars [0x4F, 0xD83D, 0xDE00, 0x6B]) = 3
   \<and> last (streamTextByChar [0x4F, 0xD83D, 0xDE00, 0x6B] 15) = [0x4F, 0xD83D, 0xDE00, 0x6B]"
  using reveal_prefixes [of "[0x4F, 0xD83D, 0xDE00, 0x6B]" 15]
  by (simp add: streamTextByChar_def isHighSurrogate_def isLowSurrogate_def upt_rec)


section \<open>The chat form\<close>

lemma set_message_length: "length (messages (set_message s i f)) = length (messages s)"
  by (simp add: set_message_def)

lemma set_message_streamed: "streamed (set_message s i f) = streamed s"
  by (simp add: set_message_def)

lemma set_message_nth:
  "i < length (messages s) \<Longrightarrow> messages (set_message s i f) ! i = f (messages s ! i)"
  by (simp add: set_message_def)

lemma fold_partials:
  "i < length (messages s) \<Longrightarrow>
   length (messages (fold (\<lambda>partialText st. set_message st i
              (\<lambda>m. m\<lparr>content := partialText, isStreaming := Some True,
                     isLoadingDots := Some False\<rparr>)) ps s)) = length (messages s)
   \<and> content (messages (fold (\<lambda>partialText st. set_message st i
              (\<lambda>m. m\<lparr>content := partialText, isStreaming := Some True,
                     isLoadingDots := Some False\<rparr>)) ps s) ! i)
       = (if ps = [] then content (messages s ! i) else last ps)
   \<and> streamed (fold (\<lambda>partialText st. set_message st i
              (\<lambda>m. m\<lparr>content := partialText, isStreaming := Some True,
                     isLoadingDots := Some False\<rparr>)) ps s) = streamed s"
proof (induction ps arbitrary: s)
  case Nil
  then show ?case by simp
next
  case (Cons p ps)
  let ?s1 = "set_message s i (\<lambda>m. m\<lparr>content := p, isStreaming := Some True,
                     isLoadingDots := Some False\<rparr>)"
  have len: "i < length (messages ?s1)"
    using Cons.prems by (simp add: set_message_length)
  have c1: "content (messages ?s1 ! i) = p"
    using Cons.prems by (simp add: set_message_nth)
  show ?case
    using Cons.IH [OF len] c1
    by (simp add: set_message_length set_message_streamed)
qed

text \<open>After the reveal the message shows the whole response and the caret is gone.\<close>

lemma sendMessage_reveal_final:
  assumes "i < length (messages s)"
  shows "content (messages (sendMessage_reveal s i S) ! i) = S
       \<and> isStreaming (messages (sendMessage_reveal s i S) ! i) = Some False
       \<and> streamed (sendMessage_reveal s i S) = streamed s @ [(S, 15)]"
proof -
  let ?s1 = "set_message s i
      (\<lambda>m. m\<lparr>content := [], isLoadingDots := Some False, isStreaming := Some True\<rparr>)"
  let ?s2 = "?s1\<lparr>streamed := streamed ?s1 @ [(S, 15)]\<rparr>"
  let ?s3 = "fold (\<lambda>partialText st. set_message st i
              (\<lambda>m. m\<lparr>content := partialText, isStreaming := Some True,
                     isLoadingDots := Some False\<rparr>)) (streamTextByChar S 15) ?s2"
  have l2: "i < length (messages ?s2)"
    using assms by (simp add: set_message_length)
  have c2: "content (messages ?s2 ! i) = []"
    using assms by (simp add: set_message_nth)
  note f = fold_partials [OF l2, of "streamTextByChar S 15"]
  have l3: "i < length (messages ?s3)" using f l2 by simp
  have c3: "content (messages ?s3 ! i) = S"
  proof (cases "S = []")
    case True
    then show ?thesis using f c2 by (simp add: streamTextByChar_def)
  next
    case False
    then have "length (streamTextByChar S 15) \<noteq> 0"
      using displayChars_Nil_iff [of S] by (simp add: streamTextByChar_length)
    then have "streamTextByChar S 15 \<noteq> []" by simp
    then show ?thesis using f False by (simp add: streamTextByChar_last)
  qed
  have st3: "streamed ?s3 = streamed s @ [(S, 15)]"
    using f by (simp add: set_message_streamed)
  show ?thesis
    unfolding sendMessage_reveal_def Let_def
    using l3 c3 st3 by (simp add: set_message_nth set_message_streamed)
qed

text \<open>
  Claim C8. When the chat request fails (the \<open>fetch\<close> rejects or the response is
  not \<open>ok\<close>), the stream renderer is not invoked, the loading flag of the form is
  cleared, and the assistant message at \<open>assistantMessageIndex\<close> becomes the fixed
  error text with \<open>isLoadingDots\<close> and \<open>isStreaming\<close> false. In particular,
  \<open>sendMessage\<close> on a non-blank query followed by a failure leaves the log extended
  by the user's message and that error message.
\<close>

theorem chat_failure_static_error:
  assumes "failed r"
  shows "streamed (sendMessage_settled s i currentLanguage r) = streamed s
     \<and> \<not> isLoading (sendMessage_settled s i currentLanguage r)
     \<and> (i < length (messages s) \<longrightarrow>
          messages (sendMessage_settled s i currentLanguage r)
            = (messages s)[i := \<lparr>role = Assistant, content = errorText currentLanguage,
                                 isStreaming = Some False, isLoadingDots = Some False\<rparr>])
     \<and> (trim query \<noteq> [] \<longrightarrow>
          snd (sendMessage s0 query currentLanguage) = Some (Suc (length (messages s0)))
          \<and> messages (sendMessage_settled (fst (sendMessage s0 query currentLanguage))
               (Suc (length (messages s0))) currentLanguage r)
            = messages s0 @
              [\<lparr>role = User, content = query, isStreaming = None, isLoadingDots = None\<rparr>,
               \<lparr>role = Assistant, content = errorText currentLanguage,
                isStreaming = Some False, isLoadingDots = Some False\<rparr>]
          \<and> streamed (sendMessage_settled (fst (sendMessage s0 query currentLanguage))
               (Suc (length (messages s0))) currentLanguage r) = streamed s0)"
proof -
  have settled: "sendMessage_settled st k currentLanguage r
                 = (sendMessage_catch st k currentLanguage)\<lparr>isLoading := False\<rparr>" for st k
    using assms by (cases r) (simp_all add: sendMessage_settled_def)
  have a: "streamed (sendMessage_settled s i currentLanguage r) = streamed s"
    by (simp add: settled sendMessage_catch_def)
  have b: "\<not> isLoading (sendMessage_settled s i currentLanguage r)"
    by (simp add: settled)
  have c: "messages (sendMessage_settled s i currentLanguage r)
            = (messages s)[i := \<lparr>role = Assistant, content = errorText currentLanguage,
                                 isStreaming = Some False, isLoadingDots = Some False\<rparr>]"
    if "i < length (messages s)"
    using that by (simp add: settled sendMessage_catch_def)
  have d: "snd (sendMessage s0 query currentLanguage) = Some (Suc (length (messages s0)))
          \<and> messages (sendMessage_settled (fst (sendMessage s0 query currentLanguage))
               (Suc (length (messages s0))) currentLanguage r)
            = messages s0 @
              [\<lparr>role = User, content = query, isStreaming = None, isLoadingDots = None\<rparr>,
               \<lparr>role = Assistant, content = errorText currentLanguage,
                isStreaming = Some False, isLoadingDots = Some False\<rparr>]
          \<and> streamed (sendMessage_settled (fst (sendMessage s0 query currentLanguage))
               (Suc (length (messages s0))) currentLanguage r) = streamed s0"
    if "trim query \<noteq> []"
    using that
    by (simp add: settled sendMessage_catch_def sendMessage_def Let_def list_update_append)
  from a b c d show ?thesis by blast
qed

text \<open>A query in an empty chat that is answered with a response that is not \<open>ok\<close>.\<close>

theorem chat_failure_static_error_witness:
  "failed (Response False (ascii ''Bad Gateway''))
   \<and> snd (sendMessage empty_chat (ascii ''Hours?'') (ascii ''en'')) = Some 1
   \<and> messages (sendMessage_settled (fst (sendMessage empty_chat (ascii ''Hours?'') (ascii ''en''))) 1
        (ascii ''en'') (Response False (ascii ''Bad Gateway'')))
     = [\<lparr>role = User, content = ascii ''Hours?'', isStreaming = None, isLoadingDots = None\<rparr>,
        \<lparr>role = Assistant, content = ascii ''Sorry, an error occurred. Please try again.'',
         isStreaming = Some False, isLoadingDots = Some False\<rparr>]
   \<and> streamed (sendMessage_settled (fst (sendMessage empty_chat (ascii ''Hours?'') (ascii ''en''))) 1
        (ascii ''en'') (Response False (ascii ''Bad Gateway''))) = []"
proof -
  have f: "failed (Response False (ascii ''Bad Gateway''))" by simp
  have q: "trim (ascii ''Hours?'') \<noteq> []"
    by (simp add: trim_def isWhiteSpace_def ascii_def)
  have m: "messages empty_chat = []" "streamed empty_chat = []"
    by (simp_all add: empty_chat_def)
  have t: "errorText (ascii ''en'') = ascii ''Sorry, an error occurred. Please try again.''"
    by (simp add: errorText_def)
  show ?thesis
    using chat_failure_static_error [OF f, of empty_chat 0 "ascii ''en''" "ascii ''Hours?''" empty_chat] q
    by (simp add: m t)
qed

end
